theory Spec2Isabelle
  imports Complex_Main
begin

section \<open>Python values and library functions used by \<^verbatim>\<open>pypinfo/core.py\<close>\<close>

text \<open>
  A Python \<^verbatim>\<open>str\<close> is modelled as a list of characters, each character a code point
  below 256 (the Latin-1 range); \<^verbatim>\<open>len\<close> is \<^const>\<open>length\<close>.  A Python \<^verbatim>\<open>int\<close> is
  an unbounded \<^typ>\<open>int\<close> (the interpreter's optional limit on the number of digits of a
  converted integer is not modelled).  An exception is a value of \<open>py_error\<close>, and a function
  that can raise returns \<open>py_error + 'a\<close> with \<open>Inl\<close> for the exception.  The message of a
  \<^verbatim>\<open>ValueError\<close> raised by the library is kept without its data-dependent part.
\<close>

datatype py_error =
    ValueError string
  | OverflowError
  | IndexError
  | ZeroDivisionError

text \<open>\<^verbatim>\<open>try: body  except ValueError: pass\<close>, where falling through yields \<open>fallback\<close>.\<close>

definition except_ValueError :: "py_error + 'a \<Rightarrow> 'a \<Rightarrow> py_error + 'a" where
  "except_ValueError body fallback =
     (case body of Inl (ValueError msg) \<Rightarrow> Inr fallback | Inl e \<Rightarrow> Inl e | Inr v \<Rightarrow> Inr v)"

subsection \<open>Characters\<close>

definition is_decimal :: "char \<Rightarrow> bool" where
  \<comment> \<open>a decimal digit (category Nd): below 256 these are \<^verbatim>\<open>0\<close>..\<^verbatim>\<open>9\<close>\<close>
  "is_decimal c \<longleftrightarrow> 48 \<le> (of_char c :: nat) \<and> (of_char c :: nat) \<le> 57"

definition digit_val :: "char \<Rightarrow> int" where
  "digit_val c = int (of_char c) - 48"

definition digit_char :: "nat \<Rightarrow> char" where
  \<comment> \<open>the character of a digit \<open>d < 10\<close>\<close>
  "digit_char d = ''0123456789'' ! d"

definition int_space :: "char \<Rightarrow> bool" where
  \<comment> \<open>what \<^verbatim>\<open>int()\<close> skips around a literal: tab, LF, VT, FF, CR, space, and the
      non-ASCII white space NEL and NBSP\<close>
  "int_space c \<longleftrightarrow> (of_char c :: nat) \<in> {9, 10, 11, 12, 13, 32, 133, 160}"

definition str_space :: "char \<Rightarrow> bool" where
  \<comment> \<open>\<^verbatim>\<open>str.isspace\<close>, which \<^verbatim>\<open>str.rstrip()\<close> removes\<close>
  "str_space c \<longleftrightarrow> (of_char c :: nat) \<in> {9, 10, 11, 12, 13, 28, 29, 30, 31, 32, 133, 160}"

definition isdigit_char :: "char \<Rightarrow> bool" where
  \<comment> \<open>\<^verbatim>\<open>str.isdigit\<close> on one character: the decimal digits and the superscripts
      two, three and one\<close>
  "isdigit_char c \<longleftrightarrow> is_decimal c \<or> (of_char c :: nat) \<in> {178, 179, 185}"

definition isdigit :: "string \<Rightarrow> bool" where
  "isdigit s \<longleftrightarrow> s \<noteq> [] \<and> list_all isdigit_char s"

definition endswith :: "string \<Rightarrow> string \<Rightarrow> bool" where
  "endswith s suffix \<longleftrightarrow> length suffix \<le> length s \<and> drop (length s - length suffix) s = suffix"

definition rstrip :: "string \<Rightarrow> string" where
  "rstrip s = rev (dropWhile str_space (rev s))"

definition lower_char :: "char \<Rightarrow> char" where
  "lower_char c =
     (let n = (of_char c :: nat)
      in if (65 \<le> n \<and> n \<le> 90) \<or> (192 \<le> n \<and> n \<le> 222 \<and> n \<noteq> 215) then char_of (n + 32) else c)"

definition lower :: "string \<Rightarrow> string" where
  "lower s = map lower_char s"

fun split_on :: "char \<Rightarrow> string \<Rightarrow> string list" where
  \<comment> \<open>\<^verbatim>\<open>s.split(sep)\<close> for a one-character separator\<close>
  "split_on sep [] = [[]]"
| "split_on sep (c # cs) =
     (if c = sep then [] # split_on sep cs
      else (let ps = split_on sep cs in (c # hd ps) # tl ps))"

fun join :: "string \<Rightarrow> string list \<Rightarrow> string" where
  \<comment> \<open>\<^verbatim>\<open>sep.join(parts)\<close>\<close>
  "join sep [] = []"
| "join sep [p] = p"
| "join sep (p # q # ps) = p @ sep @ join sep (q # ps)"

subsection \<open>\<^verbatim>\<open>int(str)\<close> and \<^verbatim>\<open>str(int)\<close>\<close>

fun parse_digits :: "int \<Rightarrow> bool \<Rightarrow> string \<Rightarrow> int option" where
  \<comment> \<open>digits with single underscores between them; the flag says that the previous
      character was a digit\<close>
  "parse_digits acc prev [] = (if prev then Some acc else None)"
| "parse_digits acc prev (c # cs) =
     (if is_decimal c then parse_digits (10 * acc + digit_val c) True cs
      else if c = CHR ''_'' \<and> prev then parse_digits acc False cs
      else None)"

definition strip_int :: "string \<Rightarrow> string" where
  "strip_int s = rev (dropWhile int_space (rev (dropWhile int_space s)))"

definition invalid_literal :: py_error where
  "invalid_literal = ValueError ''invalid literal for int() with base 10''"

definition py_int :: "string \<Rightarrow> py_error + int" where
  "py_int s =
     (case (case strip_int s of
              c # cs \<Rightarrow>
                if c = CHR ''+'' then parse_digits 0 False cs
                else if c = CHR ''-'' then map_option uminus (parse_digits 0 False cs)
                else parse_digits 0 False (c # cs)
            | [] \<Rightarrow> None)
      of None \<Rightarrow> Inl invalid_literal | Some n \<Rightarrow> Inr n)"

fun digits :: "nat \<Rightarrow> string" where
  "digits n = (if n < 10 then [digit_char n] else digits (n div 10) @ [digit_char (n mod 10)])"

declare digits.simps [simp del]

definition py_str :: "int \<Rightarrow> string" where
  "py_str n = (if n < 0 then CHR ''-'' # digits (nat (- n)) else digits (nat n))"

definition zfill :: "nat \<Rightarrow> string \<Rightarrow> string" where
  \<comment> \<open>the \<^verbatim>\<open>%0kd\<close> padding of a non-negative number\<close>
  "zfill k s = replicate (k - length s) (CHR ''0'') @ s"

subsection \<open>Calendar dates\<close>

definition isleap :: "int \<Rightarrow> bool" where
  "isleap year \<longleftrightarrow> year mod 4 = 0 \<and> (year mod 100 \<noteq> 0 \<or> year mod 400 = 0)"

definition mdays :: "int list" where
  "mdays = [0, 31, 28, 31, 30, 31, 30, 31, 31, 30, 31, 30, 31]"

definition monthrange_ndays :: "int \<Rightarrow> int \<Rightarrow> py_error + int" where
  \<comment> \<open>\<^verbatim>\<open>calendar.monthrange(year, month)[1]\<close>\<close>
  "monthrange_ndays year month =
     (if \<not> (1 \<le> month \<and> month \<le> 12) then Inl (ValueError ''bad month number; must be 1-12'')
      else Inr (mdays ! nat month + (if month = 2 \<and> isleap year then 1 else 0)))"

definition c_int :: "int \<Rightarrow> bool" where
  "c_int n \<longleftrightarrow> - (2 ^ 31) \<le> n \<and> n < 2 ^ 31"

definition date :: "int \<Rightarrow> int \<Rightarrow> int \<Rightarrow> py_error + (int \<times> int \<times> int)" where
  \<comment> \<open>\<^verbatim>\<open>datetime.date(year, month, day)\<close>: the arguments are C ints, the year is in
      1..9999, and the day exists in the month\<close>
  "date year month day =
     (if \<not> (c_int year \<and> c_int month \<and> c_int day) then Inl OverflowError
      else if year < 1 \<or> 9999 < year then Inl (ValueError ''year is out of range'')
      else if month < 1 \<or> 12 < month then Inl (ValueError ''month must be in 1..12'')
      else if day < 1 \<or> mdays ! nat month + (if month = 2 \<and> isleap year then 1 else 0) < day
        then Inl (ValueError ''day is out of range for month'')
      else Inr (year, month, day))"

definition str_date :: "int \<times> int \<times> int \<Rightarrow> string" where
  \<comment> \<open>\<^verbatim>\<open>str(date)\<close>, the ISO form \<^verbatim>\<open>%04d-%02d-%02d\<close>\<close>
  "str_date d =
     (case d of (year, month, day) \<Rightarrow>
        zfill 4 (digits (nat year)) @ ''-'' @ zfill 2 (digits (nat month)) @ ''-''
          @ zfill 2 (digits (nat day)))"

text \<open>
  \<^verbatim>\<open>datetime.strptime(s, '%Y-%m-%d')\<close> matches \<open>s\<close> against the regular expression
  \<^verbatim>\<open>(\d\d\d\d)-(1[0-2]|0[1-9]|[1-9])-(3[0-1]|[1-2]\d|0[1-9]|[1-9]| [1-9])\<close>
  from its start, taking the first match in the order of the alternatives, refuses text
  left over after the match, and builds the date.  Each function below lists the ways one
  group can match a prefix, in the order the alternatives are tried, with the rest.
\<close>

definition in_range :: "char \<Rightarrow> char \<Rightarrow> char \<Rightarrow> bool" where
  "in_range lo hi c \<longleftrightarrow> (of_char lo :: nat) \<le> of_char c \<and> (of_char c :: nat) \<le> of_char hi"

definition alt2 :: "char \<Rightarrow> char \<Rightarrow> char \<Rightarrow> char \<Rightarrow> string \<Rightarrow> (int \<times> string) list" where
  \<comment> \<open>a two-character alternative \<^verbatim>\<open>[a-b][c-d]\<close>; a leading space counts as zero\<close>
  "alt2 a b c d s =
     (case s of
        x # y # rest \<Rightarrow>
          if in_range a b x \<and> in_range c d y
          then [((if x = CHR '' '' then 0 else 10 * digit_val x) + digit_val y, rest)] else []
      | _ \<Rightarrow> [])"

definition alt1 :: "char \<Rightarrow> char \<Rightarrow> string \<Rightarrow> (int \<times> string) list" where
  \<comment> \<open>a one-character alternative \<^verbatim>\<open>[a-b]\<close>\<close>
  "alt1 a b s =
     (case s of x # rest \<Rightarrow> if in_range a b x then [(digit_val x, rest)] else [] | _ \<Rightarrow> [])"

definition match_Y :: "string \<Rightarrow> (int \<times> string) list" where
  "match_Y s =
     (case s of
        a # b # c # d # rest \<Rightarrow>
          if is_decimal a \<and> is_decimal b \<and> is_decimal c \<and> is_decimal d
          then [(1000 * digit_val a + 100 * digit_val b + 10 * digit_val c + digit_val d, rest)]
          else []
      | _ \<Rightarrow> [])"

definition match_m :: "string \<Rightarrow> (int \<times> string) list" where
  "match_m s =
     alt2 (CHR ''1'') (CHR ''1'') (CHR ''0'') (CHR ''2'') s
       @ alt2 (CHR ''0'') (CHR ''0'') (CHR ''1'') (CHR ''9'') s
       @ alt1 (CHR ''1'') (CHR ''9'') s"

definition match_d :: "string \<Rightarrow> (int \<times> string) list" where
  "match_d s =
     alt2 (CHR ''3'') (CHR ''3'') (CHR ''0'') (CHR ''1'') s
       @ alt2 (CHR ''1'') (CHR ''2'') (CHR ''0'') (CHR ''9'') s
       @ alt2 (CHR ''0'') (CHR ''0'') (CHR ''1'') (CHR ''9'') s
       @ alt1 (CHR ''1'') (CHR ''9'') s
       @ alt2 (CHR '' '') (CHR '' '') (CHR ''1'') (CHR ''9'') s"

definition match_dash :: "string \<Rightarrow> string list" where
  "match_dash s = (case s of c # rest \<Rightarrow> if c = CHR ''-'' then [rest] else [] | [] \<Rightarrow> [])"

definition match_Ymd :: "string \<Rightarrow> ((int \<times> int \<times> int) \<times> string) list" where
  "match_Ymd s =
     concat (map (\<lambda>(y, r1).
       concat (map (\<lambda>r2.
         concat (map (\<lambda>(m, r3).
           concat (map (\<lambda>r4.
             map (\<lambda>(d, r5). ((y, m, d), r5)) (match_d r4))
           (match_dash r3)))
         (match_m r2)))
       (match_dash r1)))
     (match_Y s))"

definition strptime_Ymd :: "string \<Rightarrow> py_error + (int \<times> int \<times> int)" where
  "strptime_Ymd s =
     (case match_Ymd s of
        [] \<Rightarrow> Inl (ValueError ''time data does not match format'')
      | (ymd, rest) # _ \<Rightarrow>
          if rest \<noteq> [] then Inl (ValueError ''unconverted data remains'')
          else (case ymd of (y, m, d) \<Rightarrow> date y m d))"

section \<open>Date bounds\<close>

definition FROM :: string where
  "FROM = ''FROM `bigquery-public-data.pypi.file_downloads`''"

definition DATE_ADD :: "int \<Rightarrow> string" where
  \<comment> \<open>\<^verbatim>\<open>DATE_ADD.format(n)\<close>\<close>
  "DATE_ADD n = ''TIMESTAMP_ADD(CURRENT_TIMESTAMP(), INTERVAL '' @ py_str n @ '' DAY)''"

definition START_TIMESTAMP :: "string \<Rightarrow> string" where
  \<comment> \<open>\<^verbatim>\<open>START_TIMESTAMP.format(d)\<close>\<close>
  \<open>START_TIMESTAMP d = ''TIMESTAMP("'' @ d @ '' 00:00:00")''\<close>

definition END_TIMESTAMP :: "string \<Rightarrow> string" where
  \<comment> \<open>\<^verbatim>\<open>END_TIMESTAMP.format(d)\<close>\<close>
  \<open>END_TIMESTAMP d = ''TIMESTAMP("'' @ d @ '' 23:59:59")''\<close>

definition START_DATE :: string where "START_DATE = ''-31''"
definition END_DATE :: string where "END_DATE = ''-1''"
definition DEFAULT_LIMIT :: int where "DEFAULT_LIMIT = 10"

definition month_ends :: "string \<Rightarrow> py_error + (string \<times> string)" where
  \<comment> \<open>\<^verbatim>\<open>year, month = map(int, yyyy_mm.split("-"))\<close> converts the parts one at a time
      while unpacking, so a conversion error comes before a wrong number of parts\<close>
  "month_ends yyyy_mm =
     (case split_on (CHR ''-'') yyyy_mm of
        [] \<Rightarrow> Inl (ValueError ''not enough values to unpack'')
      | a # ps \<Rightarrow>
          (case py_int a of Inl e \<Rightarrow> Inl e | Inr year \<Rightarrow>
          (case ps of
             [] \<Rightarrow> Inl (ValueError ''not enough values to unpack'')
           | b # qs \<Rightarrow>
               (case py_int b of Inl e \<Rightarrow> Inl e | Inr month \<Rightarrow>
               (case qs of
                  c # _ \<Rightarrow>
                    (case py_int c of Inl e \<Rightarrow> Inl e
                     | Inr _ \<Rightarrow> Inl (ValueError ''too many values to unpack''))
                | [] \<Rightarrow>
                    (case date year month 1 of Inl e \<Rightarrow> Inl e | Inr first_day \<Rightarrow>
                    (case monthrange_ndays year month of Inl e \<Rightarrow> Inl e | Inr number_of_days \<Rightarrow>
                    (case date year month number_of_days of Inl e \<Rightarrow> Inl e | Inr last_day \<Rightarrow>
                       Inr (str_date first_day, str_date last_day)))))))))"

definition normalize_dates :: "string \<Rightarrow> string \<Rightarrow> py_error + (string \<times> string)" where
  "normalize_dates start_date end_date =
     (case except_ValueError (map_sum id fst (month_ends start_date)) start_date of
        Inl e \<Rightarrow> Inl e
      | Inr start_date' \<Rightarrow>
          (case except_ValueError (map_sum id snd (month_ends end_date)) end_date of
             Inl e \<Rightarrow> Inl e
           | Inr end_date' \<Rightarrow> Inr (start_date', end_date')))"

definition validate_date :: "string \<Rightarrow> py_error + bool" where
  "validate_date date_text =
     (case except_ValueError (map_sum id (\<lambda>n. n < 0) (py_int date_text)) False of
        Inl e \<Rightarrow> Inl e
      | Inr True \<Rightarrow> Inr True
      | Inr False \<Rightarrow>
          (case except_ValueError (map_sum id (\<lambda>_. True) (strptime_Ymd date_text)) False of
             Inl e \<Rightarrow> Inl e
           | Inr True \<Rightarrow> Inr True
           | Inr False \<Rightarrow>
               Inl (ValueError ''Dates must be negative integers or YYYY-MM[-DD] in the past.'')))"

definition format_date :: "string \<Rightarrow> (string \<Rightarrow> string) \<Rightarrow> string" where
  "format_date date_text timestamp_format =
     (case py_int date_text of Inr n \<Rightarrow> DATE_ADD n | Inl _ \<Rightarrow> timestamp_format date_text)"

section \<open>The query builder\<close>

text \<open>
  Modelled from the spec: \<^verbatim>\<open>Field\<close> of the module \<^verbatim>\<open>pypinfo.fields\<close>, which is not among
  the sources.  A field is its display name with the SQL expression it computes, and two
  fields are the same when both agree.  The fixed \<^verbatim>\<open>Downloads\<close> field and the collection
  \<^verbatim>\<open>AGGREGATES\<close> of the aggregate fields, of the same module, are parameters of the
  builder.
\<close>

datatype Field = Field (name: string) (data: string)

definition is_separator :: "char \<Rightarrow> bool" where
  "is_separator c \<longleftrightarrow> c = CHR ''-'' \<or> c = CHR ''_'' \<or> c = CHR ''.''"

function collapse_separators :: "string \<Rightarrow> string" where
  \<comment> \<open>\<^verbatim>\<open>re.sub(r"[-_.]+", "-", name)\<close>\<close>
  "collapse_separators [] = []"
| "collapse_separators (c # cs) =
     (if is_separator c then CHR ''-'' # collapse_separators (dropWhile is_separator cs)
      else c # collapse_separators cs)"
  by pat_completeness auto
termination
  by (relation "measure length") (auto simp: length_dropWhile_le less_Suc_eq_le)

definition canonicalize_name :: "string \<Rightarrow> string" where
  "canonicalize_name project = lower (collapse_separators project)"

definition or_default :: "string option \<Rightarrow> string \<Rightarrow> string" where
  \<comment> \<open>\<^verbatim>\<open>value or default\<close>: \<^verbatim>\<open>None\<close> and the empty string are false\<close>
  "or_default v d = (case v of None \<Rightarrow> d | Some s \<Rightarrow> if s = [] then d else s)"

fun dedup_fields :: "Field list \<Rightarrow> Field list \<Rightarrow> Field set \<Rightarrow> Field list" where
  \<comment> \<open>the loop over \<^verbatim>\<open>all_fields\<close> that fills \<^verbatim>\<open>fields\<close> and \<^verbatim>\<open>used_fields\<close>\<close>
  "dedup_fields [] fields used_fields = fields"
| "dedup_fields (f # all_fields) fields used_fields =
     (if f \<notin> used_fields then dedup_fields all_fields (fields @ [f]) (insert f used_fields)
      else dedup_fields all_fields fields used_fields)"

definition select_fields :: "Field \<Rightarrow> Field list \<Rightarrow> Field list" where
  \<comment> \<open>\<^verbatim>\<open>fields\<close> after \<^verbatim>\<open>fields.append(Downloads)\<close>\<close>
  "select_fields Downloads all_fields = dedup_fields all_fields [] {} @ [Downloads]"

definition select_clause :: "Field list \<Rightarrow> string" where
  "select_clause fields =
     foldl (\<lambda>query field. query @ ''  '' @ data field @ '' as '' @ name field @ '',\<newline>'')
       ''SELECT\<newline>'' fields"

definition where_clause :: "string \<Rightarrow> string \<Rightarrow> string \<Rightarrow> string option \<Rightarrow> bool \<Rightarrow> string" where
  \<open>where_clause start_date end_date project where_arg pip =
     ''\<newline>WHERE timestamp BETWEEN '' @ start_date @ '' AND '' @ end_date @ ''\<newline>''
     @ (if or_default where_arg [] \<noteq> [] then ''  AND '' @ or_default where_arg [] @ ''\<newline>''
        else
          (let conditions =
                 (if project \<noteq> [] then [''file.project = "'' @ project @ ''"\<newline>''] else [])
                 @ (if pip then [''details.installer.name = "pip"\<newline>''] else [])
           in if conditions \<noteq> [] then ''  AND '' @ join ''  AND '' conditions else []))\<close>

definition group_by_clause :: "Field list \<Rightarrow> Field list \<Rightarrow> string" where
  "group_by_clause AGGREGATES fields =
     (if length fields > 1 then
        (let gb = ''GROUP BY\<newline>'';
             initial_length = length gb;
             non_aggregate_fields = map name (filter (\<lambda>field. field \<notin> set AGGREGATES) (butlast fields));
             gb = gb @ ''  '' @ join '', '' non_aggregate_fields @ ''\<newline>''
         in if length gb > initial_length then gb else [])
      else [])"

definition range_check :: "string \<Rightarrow> string \<Rightarrow> py_error + unit" where
  \<comment> \<open>the \<^verbatim>\<open>try\<close> block that compares the two bounds: the \<^verbatim>\<open>raise\<close> is inside the
      \<^verbatim>\<open>try\<close> whose handler is \<^verbatim>\<open>except ValueError: pass\<close>\<close>
  "range_check start_date end_date =
     except_ValueError
       (case py_int start_date of Inl e \<Rightarrow> Inl e | Inr s \<Rightarrow>
        (case py_int end_date of Inl e \<Rightarrow> Inl e | Inr e \<Rightarrow>
           if s \<ge> e then Inl (ValueError ''End date must be greater than start date.'')
           else Inr ()))
       ()"

definition build_query ::
  "Field list \<Rightarrow> Field \<Rightarrow> string \<Rightarrow> Field list \<Rightarrow> string option \<Rightarrow> string option \<Rightarrow> int option
     \<Rightarrow> int option \<Rightarrow> string option \<Rightarrow> string option \<Rightarrow> bool \<Rightarrow> py_error + string" where
  "build_query AGGREGATES Downloads project all_fields start_date end_date days limit where_arg
       order pip =
     (let project = canonicalize_name project;
          start_date = or_default start_date START_DATE;
          end_date = or_default end_date END_DATE;
          limit = (case limit of None \<Rightarrow> DEFAULT_LIMIT | Some l \<Rightarrow> if l = 0 then DEFAULT_LIMIT else l)
      in
      case (case days of
              None \<Rightarrow> Inr start_date
            | Some d \<Rightarrow>
                if d = 0 then Inr start_date
                else (case py_int end_date of Inl e \<Rightarrow> Inl e | Inr e \<Rightarrow> Inr (py_str (e - d))))
      of Inl e \<Rightarrow> Inl e | Inr start_date \<Rightarrow>
      (case normalize_dates start_date end_date of Inl e \<Rightarrow> Inl e | Inr (start_date, end_date) \<Rightarrow>
      (case validate_date start_date of Inl e \<Rightarrow> Inl e | Inr _ \<Rightarrow>
      (case validate_date end_date of Inl e \<Rightarrow> Inl e | Inr _ \<Rightarrow>
      (case range_check start_date end_date of Inl e \<Rightarrow> Inl e | Inr _ \<Rightarrow>
        (let start_date = format_date start_date START_TIMESTAMP;
             end_date = format_date end_date END_TIMESTAMP;
             fields = select_fields Downloads all_fields
         in Inr (select_clause fields @ FROM
                 @ where_clause start_date end_date project where_arg pip
                 @ group_by_clause AGGREGATES fields
                 @ ''ORDER BY\<newline>  '' @ or_default order (name Downloads) @ '' DESC\<newline>''
                 @ ''LIMIT '' @ py_str limit)))))))"

section \<open>The result shaper\<close>

subsection \<open>Lists\<close>

definition getitem :: "'a list \<Rightarrow> nat \<Rightarrow> py_error + 'a" where
  \<comment> \<open>\<^verbatim>\<open>xs[i]\<close> for a non-negative index\<close>
  "getitem xs i = (if i < length xs then Inr (xs ! i) else Inl IndexError)"



subsection \<open>Floats\<close>
















subsection \<open>\<^verbatim>\<open>add_percentages\<close>\<close>





subsection \<open>\<^verbatim>\<open>tabulate\<close>\<close>

function commas :: "string \<Rightarrow> string" where
  \<comment> \<open>a digit string with a comma before each group of three digits from the right\<close>
  "commas s =
     (if length s \<le> 3 then s
      else commas (take (length s - 3) s) @ '','' @ drop (length s - 3) s)"
  by pat_completeness auto
termination
  by (relation "measure length") auto

declare commas.simps [simp del]

definition thousands :: "int \<Rightarrow> string" where
  \<comment> \<open>\<^verbatim>\<open>"{:,}".format(n)\<close>\<close>
  "thousands n = (if n < 0 then CHR ''-'' # commas (digits (nat (- n))) else commas (digits (nat n)))"

definition spaces :: "int \<Rightarrow> string" where
  \<comment> \<open>\<^verbatim>\<open>' ' * n\<close>, empty for a negative \<open>n\<close>\<close>
  "spaces n = replicate (nat n) (CHR '' '')"

definition dashes :: "int \<Rightarrow> string" where
  "dashes n = replicate (nat n) (CHR ''-'')"

text \<open>
  \<^verbatim>\<open>right_align = [[False] * len(rows[0])] * len(rows)\<close> builds one inner list and an
  outer list that refers to it \<^verbatim>\<open>len(rows)\<close> times.  The store keeps the objects (the
  inner lists) apart from the outer list of references to them.
\<close>

record flag_store =
  refs :: "nat list"
  objs :: "bool list list"

definition new_right_align :: "nat \<Rightarrow> nat \<Rightarrow> flag_store" where
  "new_right_align ncols nrows = \<lparr>refs = replicate nrows 0, objs = [replicate ncols False]\<rparr>"

definition flag_get :: "flag_store \<Rightarrow> nat \<Rightarrow> nat \<Rightarrow> py_error + bool" where
  \<comment> \<open>\<^verbatim>\<open>right_align[r][i]\<close>\<close>
  "flag_get st r i =
     (case getitem (refs st) r of Inl e \<Rightarrow> Inl e | Inr a \<Rightarrow> getitem (objs st ! a) i)"

definition flag_set :: "flag_store \<Rightarrow> nat \<Rightarrow> nat \<Rightarrow> py_error + flag_store" where
  \<comment> \<open>\<^verbatim>\<open>right_align[r][i] = True\<close>\<close>
  "flag_set st r i =
     (case getitem (refs st) r of Inl e \<Rightarrow> Inl e | Inr a \<Rightarrow>
        if i < length (objs st ! a) then Inr (st\<lparr>objs := (objs st)[a := (objs st ! a)[i := True]]\<rparr>)
        else Inl IndexError)"

fun scan_row ::
  "nat \<Rightarrow> nat \<Rightarrow> string list \<Rightarrow> nat list \<Rightarrow> flag_store
     \<Rightarrow> py_error + (string list \<times> nat list \<times> flag_store)" where
  \<comment> \<open>the inner loop of the width pass over the cells of row \<open>r\<close> from column \<open>i\<close> on;
      it returns the rewritten cells\<close>
  "scan_row r i [] column_widths right_align = Inr ([], column_widths, right_align)"
| "scan_row r i (item # items) column_widths right_align =
     (case (if isdigit item then
              (case py_int item of Inl e \<Rightarrow> Inl e | Inr n \<Rightarrow>
              (case flag_set right_align r i of Inl e \<Rightarrow> Inl e
               | Inr right_align' \<Rightarrow> Inr (thousands n, right_align')))
            else if endswith item ''%'' then
              (case flag_set right_align r i of Inl e \<Rightarrow> Inl e
               | Inr right_align' \<Rightarrow> Inr (item, right_align'))
            else Inr (item, right_align))
      of Inl e \<Rightarrow> Inl e | Inr (cell, right_align') \<Rightarrow>
     (let len = length item in
      case getitem column_widths i of Inl e \<Rightarrow> Inl e | Inr w \<Rightarrow>
     (case scan_row r (Suc i) items
             (if len > w then column_widths[i := len] else column_widths) right_align'
      of Inl e \<Rightarrow> Inl e
       | Inr (cells, column_widths', right_align'') \<Rightarrow>
           Inr (cell # cells, column_widths', right_align''))))"

fun scan_rows ::
  "nat \<Rightarrow> string list list \<Rightarrow> nat list \<Rightarrow> flag_store
     \<Rightarrow> py_error + (string list list \<times> nat list \<times> flag_store)" where
  \<comment> \<open>the outer loop of the width pass, from row \<open>r\<close> on\<close>
  "scan_rows r [] column_widths right_align = Inr ([], column_widths, right_align)"
| "scan_rows r (row # rows) column_widths right_align =
     (case scan_row r 0 row column_widths right_align of Inl e \<Rightarrow> Inl e
      | Inr (row', column_widths', right_align') \<Rightarrow>
     (case scan_rows (Suc r) rows column_widths' right_align' of Inl e \<Rightarrow> Inl e
      | Inr (rows', column_widths'', right_align'') \<Rightarrow>
          Inr (row' # rows', column_widths'', right_align'')))"

fun render_headers :: "nat list \<Rightarrow> nat \<Rightarrow> string list \<Rightarrow> py_error + string" where
  "render_headers column_widths i [] = Inr []"
| "render_headers column_widths i (item # items) =
     (case getitem column_widths i of Inl e \<Rightarrow> Inl e | Inr w \<Rightarrow>
     (case render_headers column_widths (Suc i) items of Inl e \<Rightarrow> Inl e | Inr tabulated \<Rightarrow>
        Inr (item @ spaces (int w - int (length item) + 1) @ ''| '' @ tabulated)))"

fun render_separator :: "nat list \<Rightarrow> flag_store \<Rightarrow> bool \<Rightarrow> nat list \<Rightarrow> py_error + string" where
  \<comment> \<open>the loop over \<^verbatim>\<open>range(len(rows[0]))\<close>\<close>
  "render_separator column_widths right_align markdown [] = Inr []"
| "render_separator column_widths right_align markdown (i # is) =
     (case getitem column_widths i of Inl e \<Rightarrow> Inl e | Inr w \<Rightarrow>
     (case flag_get right_align 0 i of Inl e \<Rightarrow> Inl e | Inr right \<Rightarrow>
     (case render_separator column_widths right_align markdown is of Inl e \<Rightarrow> Inl e
      | Inr tabulated \<Rightarrow>
          Inr (dashes (int w - 1) @ (if right \<and> markdown then '': | '' else ''- | '') @ tabulated))))"

fun render_cells :: "nat list \<Rightarrow> flag_store \<Rightarrow> nat \<Rightarrow> nat \<Rightarrow> string list \<Rightarrow> py_error + string" where
  \<comment> \<open>the cells of data row \<open>r\<close> from column \<open>i\<close> on\<close>
  "render_cells column_widths right_align r i [] = Inr []"
| "render_cells column_widths right_align r i (item # items) =
     (case getitem column_widths i of Inl e \<Rightarrow> Inl e | Inr w \<Rightarrow>
     (let num_spaces = int w - int (length item) in
      case flag_get right_align r i of Inl e \<Rightarrow> Inl e | Inr right \<Rightarrow>
     (case render_cells column_widths right_align r (Suc i) items of Inl e \<Rightarrow> Inl e
      | Inr tabulated \<Rightarrow>
          Inr (''| '' @ (if right then spaces num_spaces @ item @ '' ''
                         else item @ spaces (num_spaces + 1)) @ tabulated))))"

fun render_rows :: "nat list \<Rightarrow> flag_store \<Rightarrow> nat \<Rightarrow> string list list \<Rightarrow> py_error + string" where
  \<comment> \<open>the data rows from row \<open>r\<close> on, counted after the header was removed\<close>
  "render_rows column_widths right_align r [] = Inr []"
| "render_rows column_widths right_align r (row # rows) =
     (case render_cells column_widths right_align r 0 row of Inl e \<Rightarrow> Inl e | Inr cells \<Rightarrow>
     (case render_rows column_widths right_align (Suc r) rows of Inl e \<Rightarrow> Inl e
      | Inr tabulated \<Rightarrow> Inr (cells @ ''|\<newline>'' @ tabulated)))"

definition tabulate :: "string list list \<Rightarrow> bool \<Rightarrow> py_error + string" where
  "tabulate rows markdown =
     (case rows of
        [] \<Rightarrow> Inl IndexError
      | first_row # _ \<Rightarrow>
          (let column_widths = replicate (length first_row) 0;
               right_align = new_right_align (length first_row) (length rows)
           in case scan_rows 0 rows column_widths right_align of Inl e \<Rightarrow> Inl e
              | Inr (rows, column_widths, right_align) \<Rightarrow>
             (case rows of
                [] \<Rightarrow> Inl IndexError
              | headers # rows \<Rightarrow>
                 (case render_headers column_widths 0 headers of Inl e \<Rightarrow> Inl e | Inr h \<Rightarrow>
                 (let tabulated = rstrip (''| '' @ h) @ ''\<newline>| '' in
                  case rows of
                    [] \<Rightarrow> Inl IndexError
                  | row0 # _ \<Rightarrow>
                     (case render_separator column_widths right_align markdown [0..<length row0]
                      of Inl e \<Rightarrow> Inl e | Inr sep \<Rightarrow>
                     (let tabulated = rstrip (tabulated @ sep) @ ''\<newline>'' in
                      case render_rows column_widths right_align 0 rows of Inl e \<Rightarrow> Inl e
                      | Inr body \<Rightarrow> Inr (tabulated @ body))))))))"

section \<open>Notions of the specification\<close>

definition decimal_value :: "int \<Rightarrow> string \<Rightarrow> int" where
  \<comment> \<open>the number a string of decimal digits denotes, continuing from \<open>acc\<close>\<close>
  "decimal_value acc s = foldl (\<lambda>a c. 10 * a + digit_val c) acc s"

definition month_length :: "int \<Rightarrow> int \<Rightarrow> int" where
  \<comment> \<open>the length of a month of the Gregorian calendar\<close>
  "month_length y m =
     (if m = 2 then (if (y mod 4 = 0 \<and> y mod 100 \<noteq> 0) \<or> y mod 400 = 0 then 29 else 28)
      else if m = 4 \<or> m = 6 \<or> m = 9 \<or> m = 11 then 30
      else 31)"

definition negative_integer_text :: "string \<Rightarrow> bool" where
  \<comment> \<open>a string that \<^verbatim>\<open>int()\<close> reads as a negative integer\<close>
  "negative_integer_text s \<longleftrightarrow> (case py_int s of Inr n \<Rightarrow> n < 0 | Inl _ \<Rightarrow> False)"

definition iso_date_text :: "string \<Rightarrow> bool" where
  \<comment> \<open>a calendar date written \<^verbatim>\<open>YYYY-MM-DD\<close>: four, two and two decimal digits\<close>
  "iso_date_text s \<longleftrightarrow>
     (case s of
        [y1, y2, y3, y4, h1, m1, m2, h2, d1, d2] \<Rightarrow>
          list_all is_decimal [y1, y2, y3, y4, m1, m2, d1, d2] \<and> h1 = CHR ''-'' \<and> h2 = CHR ''-''
          \<and> (let y = decimal_value 0 [y1, y2, y3, y4]; m = decimal_value 0 [m1, m2];
                  d = decimal_value 0 [d1, d2]
              in 1 \<le> y \<and> 1 \<le> m \<and> m \<le> 12 \<and> 1 \<le> d \<and> d \<le> month_length y m)
      | _ \<Rightarrow> False)"

definition dates_message :: string where
  "dates_message = ''Dates must be negative integers or YYYY-MM[-DD] in the past.''"

fun first_occurrences :: "'a list \<Rightarrow> 'a list" where
  \<comment> \<open>a list without its repetitions, each element at its first position\<close>
  "first_occurrences [] = []"
| "first_occurrences (x # xs) = x # first_occurrences (removeAll x xs)"

definition year_month_text :: "string \<Rightarrow> bool" where
  \<comment> \<open>a month written \<^verbatim>\<open>YYYY-MM\<close>: four and two decimal digits, a year from 1 on (the
      first year of \<^verbatim>\<open>datetime.date\<close>) and a month from 1 to 12\<close>
  "year_month_text s \<longleftrightarrow>
     (case s of
        [y1, y2, y3, y4, h, m1, m2] \<Rightarrow>
          list_all is_decimal [y1, y2, y3, y4, m1, m2] \<and> h = CHR ''-''
          \<and> 1 \<le> decimal_value 0 [y1, y2, y3, y4]
          \<and> 1 \<le> decimal_value 0 [m1, m2] \<and> decimal_value 0 [m1, m2] \<le> 12
      | _ \<Rightarrow> False)"

definition count_cell :: "string \<Rightarrow> bool" where
  \<comment> \<open>a cell of the \<^verbatim>\<open>download_count\<close> column: decimal digits only\<close>
  "count_cell s \<longleftrightarrow> s \<noteq> [] \<and> list_all is_decimal s"



definition marked :: "string \<Rightarrow> bool" where
  \<comment> \<open>a cell that asks for right alignment: digits only, or ending in a percent sign\<close>
  "marked item \<longleftrightarrow> isdigit item \<or> endswith item ''%''"

definition column_marked :: "string list list \<Rightarrow> nat \<Rightarrow> bool" where
  \<comment> \<open>some row of the table, the header included, has a marked cell in column \<open>i\<close>\<close>
  "column_marked rows i \<longleftrightarrow> (\<exists>row \<in> set rows. i < length row \<and> marked (row ! i))"

definition displayed :: "string \<Rightarrow> string" where
  \<comment> \<open>a cell as it is shown: a digit-only cell gets its thousands separators\<close>
  "displayed item =
     (if isdigit item then (case py_int item of Inr n \<Rightarrow> thousands n | Inl _ \<Rightarrow> item) else item)"

definition raw_width :: "string list list \<Rightarrow> nat \<Rightarrow> nat" where
  \<comment> \<open>the greatest length of the cells of column \<open>i\<close> as they are given\<close>
  "raw_width rows i = foldr (\<lambda>row w. max w (if i < length row then length (row ! i) else 0)) rows 0"

definition cell_text :: "nat \<Rightarrow> bool \<Rightarrow> string \<Rightarrow> string" where
  \<comment> \<open>a data cell in a column of width \<open>w\<close>: padded on the left when right-aligned, on the
      right otherwise\<close>
  "cell_text w right item =
     ''| '' @ (if right then spaces (int w - int (length item)) @ item @ '' ''
               else item @ spaces (int w - int (length item) + 1))"

fun mark_cells :: "bool list \<Rightarrow> nat \<Rightarrow> string list \<Rightarrow> bool list" where
  \<comment> \<open>the flags of the columns after the cells of one row, from column \<open>i\<close> on\<close>
  "mark_cells flags i [] = flags"
| "mark_cells flags i (item # items) =
     mark_cells (if marked item then flags[i := True] else flags) (Suc i) items"

fun widen :: "nat list \<Rightarrow> nat \<Rightarrow> string list \<Rightarrow> nat list" where
  \<comment> \<open>the widths of the columns after the cells of one row, from column \<open>i\<close> on\<close>
  "widen widths i [] = widths"
| "widen widths i (item # items) =
     widen (widths[i := max (widths ! i) (length item)]) (Suc i) items"

definition shared_flags :: "nat \<Rightarrow> bool list \<Rightarrow> flag_store" where
  \<comment> \<open>a store whose \<open>m\<close> references all point to one list of flags\<close>
  "shared_flags m flags = \<lparr>refs = replicate m 0, objs = [flags]\<rparr>"

definition well_formed_table :: "string list list \<Rightarrow> bool" where
  \<comment> \<open>a header and at least one data row, no row longer than the header, and every
      digit-only cell made of decimal digits\<close>
  "well_formed_table rows \<longleftrightarrow>
     (case rows of
        [] \<Rightarrow> False
      | header # others \<Rightarrow>
          others \<noteq> [] \<and> list_all (\<lambda>row. length row \<le> length header) others
          \<and> list_all (list_all (\<lambda>cell. isdigit cell \<longrightarrow> count_cell cell)) rows)"

section \<open>Concrete catalogue entries\<close>

text \<open>
  Modelled from the spec: two entries of the field catalogue, used where a statement is
  evaluated at a concrete input.  The first is the fixed download count, displayed as
  \<^verbatim>\<open>download_count\<close>; the second stands for an aggregate field.
\<close>

definition sample_Downloads :: Field where
  "sample_Downloads = Field ''download_count'' ''COUNT(*)''"

definition sample_Percent3 :: Field where
  "sample_Percent3 = Field ''percent_3'' ''ROUND(100 * SUM(py3) / COUNT(*), 1)''"

section \<open>Evaluation\<close>

lemma replicate_numeral: "replicate (numeral k) x = x # replicate (pred_numeral k) x"
  by (simp add: numeral_eq_Suc)

lemmas char_eval =
  is_decimal_def digit_val_def digit_char_def int_space_def str_space_def isdigit_char_def
  isdigit_def endswith_def rstrip_def lower_char_def lower_def in_range_def is_separator_def

lemmas int_eval = py_int_def strip_int_def invalid_literal_def py_str_def digits.simps zfill_def

lemmas date_eval =
  isleap_def mdays_def monthrange_ndays_def c_int_def date_def str_date_def alt1_def alt2_def
  match_Y_def match_m_def match_d_def match_dash_def match_Ymd_def strptime_Ymd_def
  month_ends_def normalize_dates_def validate_date_def except_ValueError_def format_date_def
  START_DATE_def END_DATE_def DEFAULT_LIMIT_def DATE_ADD_def START_TIMESTAMP_def
  END_TIMESTAMP_def

lemmas query_eval =
  build_query_def canonicalize_name_def or_default_def select_fields_def select_clause_def
  where_clause_def group_by_clause_def range_check_def FROM_def sample_Downloads_def
  sample_Percent3_def Let_def




lemmas table_eval =
  tabulate_def getitem_def flag_set_def flag_get_def new_right_align_def spaces_def dashes_def
  thousands_def commas.simps replicate_numeral

section \<open>Reading and printing integers\<close>


lemma digit_cases: "d < 10 \<Longrightarrow> d = 0 \<or> d = 1 \<or> d = 2 \<or> d = 3 \<or> d = 4 \<or> d = 5 \<or> d = 6 \<or> d = 7 \<or> d = 8 \<or> d = (9::nat)"
  by arith

lemma digit_char_decimal: "d < 10 \<Longrightarrow> is_decimal (digit_char d)"
  using digit_cases [of d] by (auto simp: is_decimal_def digit_char_def)

lemma digit_val_digit_char: "d < 10 \<Longrightarrow> digit_val (digit_char d) = int d"
  using digit_cases [of d] by (auto simp: digit_val_def digit_char_def)

lemma digits_decimal: "list_all is_decimal (digits n)"
proof (induction n rule: digits.induct)
  case (1 n)
  show ?case
  proof (cases "n < 10")
    case True
    then show ?thesis by (simp add: digits.simps [of n] digit_char_decimal)
  next
    case False
    with 1 show ?thesis by (simp add: digits.simps [of n] digit_char_decimal)
  qed
qed

lemma digits_not_Nil: "digits n \<noteq> []"
  by (subst digits.simps) simp

lemma decimal_value_digits: "decimal_value 0 (digits n) = int n"
proof (induction n rule: digits.induct)
  case (1 n)
  show ?case
  proof (cases "n < 10")
    case True
    then show ?thesis by (simp add: digits.simps [of n] decimal_value_def digit_val_digit_char)
  next
    case False
    with 1 have "decimal_value 0 (digits (n div 10)) = int (n div 10)" by simp
    with False show ?thesis
      by (simp add: digits.simps [of n] decimal_value_def digit_val_digit_char zdiv_int zmod_int)
  qed
qed

lemma parse_digits_decimal:
  "list_all is_decimal s \<Longrightarrow> s \<noteq> [] \<or> prev \<Longrightarrow> parse_digits acc prev s = Some (decimal_value acc s)"
  by (induction s arbitrary: acc prev) (auto simp: decimal_value_def)

lemma decimal_not_space: "is_decimal c \<Longrightarrow> \<not> int_space c"
  by (auto simp: is_decimal_def int_space_def)

lemma strip_int_no_space:
  assumes "s \<noteq> []" "\<not> int_space (hd s)" "\<not> int_space (last s)"
  shows "strip_int s = s"
proof -
  from assms have "dropWhile int_space s = s" by (cases s) auto
  moreover from assms have "dropWhile int_space (rev s) = rev s"
    by (cases "rev s") (auto simp: last_rev [symmetric] hd_rev)
  ultimately show ?thesis by (simp add: strip_int_def)
qed

lemma decimal_hd_last:
  assumes "list_all is_decimal s" "s \<noteq> []"
  shows "is_decimal (hd s)" "is_decimal (last s)"
  using assms by (auto simp: list_all_iff)

lemma py_int_decimal:
  assumes "list_all is_decimal s" "s \<noteq> []"
  shows "py_int s = Inr (decimal_value 0 s)"
proof -
  from assms have st: "strip_int s = s"
    by (intro strip_int_no_space) (auto dest: decimal_hd_last decimal_not_space)
  from assms obtain c cs where s: "s = c # cs" by (cases s) auto
  with assms have "is_decimal c" by simp
  then have "c \<noteq> CHR ''+''" "c \<noteq> CHR ''-''" by (auto simp: is_decimal_def)
  with st s assms show ?thesis
    using parse_digits_decimal [of s False 0] by (simp add: py_int_def)
qed

lemma py_int_minus_decimal:
  assumes "list_all is_decimal s" "s \<noteq> []"
  shows "py_int (CHR ''-'' # s) = Inr (- decimal_value 0 s)"
proof -
  from assms have "\<not> int_space (last s)" by (auto dest: decimal_hd_last decimal_not_space)
  with assms have st: "strip_int (CHR ''-'' # s) = CHR ''-'' # s"
    by (intro strip_int_no_space) (auto simp: int_space_def)
  with assms show ?thesis
    using parse_digits_decimal [of s False 0] by (simp add: py_int_def)
qed

lemma py_int_py_str: "py_int (py_str n) = Inr n"
  by (simp add: py_str_def py_int_decimal py_int_minus_decimal digits_decimal digits_not_Nil
      decimal_value_digits)

lemma py_int_error: "py_int s = Inl e \<Longrightarrow> e = invalid_literal"
  by (auto simp: py_int_def split: option.splits)

section \<open>Date validation\<close>

lemma match_Ymd_decimal: "list_all is_decimal s \<Longrightarrow> match_Ymd s = []"
  by (auto simp: match_Ymd_def match_Y_def match_dash_def is_decimal_def split: list.splits)

lemma match_Y_minus: "match_Y (CHR ''-'' # s) = []"
  by (simp add: match_Y_def is_decimal_def split: list.splits)

lemma match_Ymd_minus: "match_Ymd (CHR ''-'' # s) = []"
  by (simp add: match_Ymd_def match_Y_minus)

lemma strptime_py_str: "\<exists>msg. strptime_Ymd (py_str n) = Inl (ValueError msg)"
  by (simp add: py_str_def strptime_Ymd_def match_Ymd_decimal match_Ymd_minus digits_decimal)

lemma validate_date_nonnegative: "0 \<le> n \<Longrightarrow> validate_date (py_str n) = Inl (ValueError dates_message)"
  using strptime_py_str [of n] by (auto simp: validate_date_def py_int_py_str except_ValueError_def dates_message_def)

lemma validate_date_negative: "n < 0 \<Longrightarrow> validate_date (py_str n) = Inr True"
  by (auto simp: validate_date_def py_int_py_str except_ValueError_def dates_message_def)

text \<open>
  C3, as the claim states it, fails: \<^verbatim>\<open>validate_date("0")\<close> does not return \<^verbatim>\<open>True\<close>.
\<close>

theorem validate_date_zero_not_accepted: "validate_date ''0'' \<noteq> Inr True"
  by (simp add: char_eval int_eval date_eval)

text \<open>
  C3 (amended): \<^verbatim>\<open>validate_date\<close> rejects the bound \<^verbatim>\<open>0\<close>.  For every integer \<open>n \<ge> 0\<close>,
  and so for \<open>0\<close>, \<^verbatim>\<open>validate_date(str(n))\<close> raises the \<^verbatim>\<open>ValueError\<close> that names the
  accepted forms; a relative offset is accepted only when it is strictly negative.
\<close>

theorem validate_date_rejects_nonnegative:
  "0 \<le> n \<Longrightarrow> validate_date (py_str n) = Inl (ValueError dates_message)"
  by (rule validate_date_nonnegative)

theorem validate_date_rejects_zero_witness:
  "(0::int) \<le> 0 \<and> py_str 0 = ''0''
   \<and> validate_date ''0''
       = Inl (ValueError ''Dates must be negative integers or YYYY-MM[-DD] in the past.'')"
proof -
  have s: "py_str 0 = ''0''" by (simp add: char_eval int_eval)
  show ?thesis using validate_date_rejects_nonnegative [of 0] by (simp add: s dates_message_def)
qed

lemma digit_val_bounds: "- 48 \<le> digit_val c \<and> digit_val c \<le> 207"
proof -
  have "(of_char c :: nat) < 256" by simp
  then show ?thesis unfolding digit_val_def by linarith
qed

lemma alt1_c_int:
  assumes "(v, r) \<in> set (alt1 a b s)"
  shows "\<bar>v\<bar> \<le> 207"
proof (cases s)
  case Nil
  with assms show ?thesis by (simp add: alt1_def)
next
  case (Cons x t)
  with assms have "v = digit_val x" by (simp add: alt1_def split: if_splits)
  with digit_val_bounds [of x] show ?thesis by linarith
qed

lemma alt2_c_int:
  assumes "(v, r) \<in> set (alt2 a b c d s)"
  shows "\<bar>v\<bar> \<le> 2277"
proof (cases s)
  case Nil
  with assms show ?thesis by (simp add: alt2_def)
next
  case s: (Cons x t)
  show ?thesis
  proof (cases t)
    case Nil
    with s assms show ?thesis by (simp add: alt2_def)
  next
    case (Cons y rest)
    with s assms have "v = (if x = CHR '' '' then 0 else 10 * digit_val x) + digit_val y"
      by (simp add: alt2_def split: if_splits)
    with digit_val_bounds [of x] digit_val_bounds [of y] show ?thesis
      by (cases "x = CHR '' ''") (simp_all, linarith+)
  qed
qed

lemma match_m_bound: "(v, r) \<in> set (match_m s) \<Longrightarrow> \<bar>v\<bar> \<le> 2277"
  by (auto simp: match_m_def dest: alt1_c_int alt2_c_int)

lemma match_d_bound: "(v, r) \<in> set (match_d s) \<Longrightarrow> \<bar>v\<bar> \<le> 2277"
  by (auto simp: match_d_def dest: alt1_c_int alt2_c_int)

lemma match_Y_bound: "(v, r) \<in> set (match_Y s) \<Longrightarrow> \<bar>v\<bar> \<le> 229977"
proof -
  assume "(v, r) \<in> set (match_Y s)"
  then obtain a b c d where "v = 1000 * digit_val a + 100 * digit_val b + 10 * digit_val c + digit_val d"
    by (auto simp: match_Y_def split: list.splits if_splits)
  with digit_val_bounds [of a] digit_val_bounds [of b] digit_val_bounds [of c] digit_val_bounds [of d]
  show ?thesis by auto
qed

lemma match_Ymd_bound:
  "((y, m, d), r) \<in> set (match_Ymd s) \<Longrightarrow> \<bar>y\<bar> \<le> 229977 \<and> \<bar>m\<bar> \<le> 2277 \<and> \<bar>d\<bar> \<le> 2277"
  by (auto simp: match_Ymd_def dest!: match_Y_bound match_m_bound match_d_bound)

lemma strptime_Ymd_error: "strptime_Ymd s = Inl e \<Longrightarrow> \<exists>msg. e = ValueError msg"
proof -
  assume a: "strptime_Ymd s = Inl e"
  show ?thesis
  proof (cases "match_Ymd s")
    case Nil
    with a show ?thesis by (auto simp: strptime_Ymd_def)
  next
    case (Cons p ps)
    obtain y m d r where p: "p = ((y, m, d), r)" by (cases p) auto
    with Cons have "((y, m, d), r) \<in> set (match_Ymd s)" by simp
    from match_Ymd_bound [OF this] have "c_int y \<and> c_int m \<and> c_int d"
      by (auto simp: c_int_def)
    with a Cons p show ?thesis
      by (auto simp: strptime_Ymd_def date_def split: if_splits)
  qed
qed

lemma validate_date_rejects:
  assumes "\<not> negative_integer_text s" and "\<forall>d. strptime_Ymd s \<noteq> Inr d"
  shows "validate_date s = Inl (ValueError dates_message)"
proof -
  from assms(2) obtain e where "strptime_Ymd s = Inl e" by (cases "strptime_Ymd s") auto
  moreover from this obtain msg where "e = ValueError msg" by (auto dest: strptime_Ymd_error)
  ultimately have 2: "except_ValueError (map_sum id (\<lambda>_. True) (strptime_Ymd s)) False = Inr False"
    by (simp add: except_ValueError_def)
  have 1: "except_ValueError (map_sum id (\<lambda>n. n < 0) (py_int s)) False = Inr False"
    using assms(1)
    by (cases "py_int s")
       (auto simp: negative_integer_text_def except_ValueError_def invalid_literal_def
          dest!: py_int_error)
  show ?thesis by (simp add: validate_date_def 1 2 dates_message_def)
qed

text \<open>
  C7, as the claim states it, fails: \<^verbatim>\<open>2020-1-5\<close> is neither a negative integer nor a
  date written \<^verbatim>\<open>YYYY-MM-DD\<close>, and \<^verbatim>\<open>validate_date\<close> returns \<^verbatim>\<open>True\<close> for it, since
  \<^verbatim>\<open>strptime\<close> takes a month and a day of one digit.
\<close>

theorem validate_date_accepts_short_date:
  "validate_date ''2020-1-5'' = Inr True \<and> \<not> negative_integer_text ''2020-1-5''
   \<and> \<not> iso_date_text ''2020-1-5''"
  by (simp add: char_eval int_eval date_eval negative_integer_text_def iso_date_text_def)

text \<open>
  C7 (amended): for every negative integer \<open>n\<close>, \<^verbatim>\<open>validate_date(str(n))\<close> returns
  \<^verbatim>\<open>True\<close>; for every string that \<^verbatim>\<open>int()\<close> does not read as a negative integer and that
  \<^verbatim>\<open>strptime(s, '%Y-%m-%d')\<close> does not accept, \<^verbatim>\<open>validate_date\<close> raises the
  \<^verbatim>\<open>ValueError\<close> whose message names the accepted forms.
\<close>

theorem validate_date_negative_or_rejected:
  "(n < 0 \<longrightarrow> validate_date (py_str n) = Inr True)
   \<and> (\<not> negative_integer_text s \<and> (\<forall>d. strptime_Ymd s \<noteq> Inr d)
        \<longrightarrow> validate_date s
            = Inl (ValueError ''Dates must be negative integers or YYYY-MM[-DD] in the past.''))"
  using validate_date_negative [of n] validate_date_rejects [of s]
  by (simp add: dates_message_def)

theorem validate_date_negative_or_rejected_witness:
  "(- 7 :: int) < 0 \<and> py_str (- 7) = ''-7'' \<and> validate_date ''-7'' = Inr True
   \<and> \<not> negative_integer_text ''yesterday''
   \<and> strptime_Ymd ''yesterday'' = Inl (ValueError ''time data does not match format'')
   \<and> validate_date ''yesterday''
       = Inl (ValueError ''Dates must be negative integers or YYYY-MM[-DD] in the past.'')"
proof -
  have n: "py_str (- 7) = ''-7''" by (simp add: char_eval int_eval)
  have s1: "\<not> negative_integer_text ''yesterday''"
    by (simp add: char_eval int_eval negative_integer_text_def)
  have s2: "strptime_Ymd ''yesterday'' = Inl (ValueError ''time data does not match format'')"
    by (simp add: char_eval date_eval)
  then have s3: "\<forall>d. strptime_Ymd ''yesterday'' \<noteq> Inr d" by simp
  from validate_date_negative_or_rejected [of "- 7" "''yesterday''"] n s1 s2 s3
  show ?thesis by simp
qed

section \<open>The ends of a month\<close>

lemma of_char_nat_eq: "(of_char c :: nat) = of_char d \<Longrightarrow> c = d"
  by simp

lemma decimal_char_cases:
  assumes "is_decimal c"
  shows "c \<in> set ''0123456789''"
proof -
  obtain n :: nat where n: "of_char c = n" by simp
  with assms have "48 \<le> n" "n \<le> 57" by (auto simp: is_decimal_def)
  then have lt: "n - 48 < 10" and eq: "n = 48 + (n - 48)" by simp_all
  from digit_cases [OF lt] eq
  have "n = 48 \<or> n = 49 \<or> n = 50 \<or> n = 51 \<or> n = 52 \<or> n = 53 \<or> n = 54 \<or> n = 55
      \<or> n = 56 \<or> n = 57"
    by (elim disjE) arith+
  then show ?thesis
  proof (elim disjE)
    assume "n = 48" with n have "c = CHR ''0''" by (intro of_char_nat_eq) simp
    then show ?thesis by simp
  next
    assume "n = 49" with n have "c = CHR ''1''" by (intro of_char_nat_eq) simp
    then show ?thesis by simp
  next
    assume "n = 50" with n have "c = CHR ''2''" by (intro of_char_nat_eq) simp
    then show ?thesis by simp
  next
    assume "n = 51" with n have "c = CHR ''3''" by (intro of_char_nat_eq) simp
    then show ?thesis by simp
  next
    assume "n = 52" with n have "c = CHR ''4''" by (intro of_char_nat_eq) simp
    then show ?thesis by simp
  next
    assume "n = 53" with n have "c = CHR ''5''" by (intro of_char_nat_eq) simp
    then show ?thesis by simp
  next
    assume "n = 54" with n have "c = CHR ''6''" by (intro of_char_nat_eq) simp
    then show ?thesis by simp
  next
    assume "n = 55" with n have "c = CHR ''7''" by (intro of_char_nat_eq) simp
    then show ?thesis by simp
  next
    assume "n = 56" with n have "c = CHR ''8''" by (intro of_char_nat_eq) simp
    then show ?thesis by simp
  next
    assume "n = 57" with n have "c = CHR ''9''" by (intro of_char_nat_eq) simp
    then show ?thesis by simp
  qed
qed

lemma digit_val_decimal: "is_decimal c \<Longrightarrow> 0 \<le> digit_val c \<and> digit_val c \<le> 9"
  by (auto simp: is_decimal_def digit_val_def)

lemma digit_char_digit_val: "is_decimal c \<Longrightarrow> digit_char (nat (digit_val c)) = c"
  by (drule decimal_char_cases) (auto simp: digit_val_def digit_char_def)

lemma digits_step:
  assumes "d < 10"
  shows "digits (10 * v + d) = (if v = 0 then [] else digits v) @ [digit_char d]"
proof (cases "v = 0")
  case True
  with assms show ?thesis by (simp add: digits.simps [of d])
next
  case False
  then have "\<not> 10 * v + d < 10" by simp
  with assms False show ?thesis by (simp add: digits.simps [of "10 * v + d"])
qed

lemma decimal_value_snoc: "decimal_value a (xs @ [c]) = 10 * decimal_value a xs + digit_val c"
  by (simp add: decimal_value_def)

lemma decimal_value_nonneg: "list_all is_decimal s \<Longrightarrow> 0 \<le> a \<Longrightarrow> 0 \<le> decimal_value a s"
proof (induction s arbitrary: a)
  case Nil
  then show ?case by (simp add: decimal_value_def)
next
  case (Cons c s)
  then have c: "is_decimal c" and s: "list_all is_decimal s" by simp_all
  from digit_val_decimal [OF c] Cons.prems(2) have "0 \<le> 10 * a + digit_val c" by linarith
  from Cons.IH [OF s this] show ?case by (simp add: decimal_value_def)
qed

lemma stripped_digits_roundtrip:
  assumes "list_all is_decimal ds"
  shows "length (if decimal_value 0 ds = 0 then [] else digits (nat (decimal_value 0 ds))) \<le> length ds
     \<and> replicate (length ds - length (if decimal_value 0 ds = 0 then [] else digits (nat (decimal_value 0 ds)))) (CHR ''0'')
        @ (if decimal_value 0 ds = 0 then [] else digits (nat (decimal_value 0 ds))) = ds"
  using assms
proof (induction ds rule: rev_induct)
  case Nil
  then show ?case by (simp add: decimal_value_def)
next
  case (snoc c ds)
  then have dec: "list_all is_decimal ds" and c: "is_decimal c" by simp_all
  let ?v = "decimal_value 0 ds"
  let ?d = "digit_val c"
  from dec have v0: "0 \<le> ?v" by (rule decimal_value_nonneg) simp
  from c have d: "0 \<le> ?d" "?d \<le> 9" by (auto dest: digit_val_decimal)
  have val: "decimal_value 0 (ds @ [c]) = 10 * ?v + ?d" by (rule decimal_value_snoc)
  have natv: "nat (10 * ?v + ?d) = 10 * nat ?v + nat ?d" using v0 d by simp
  from snoc.IH [OF dec] have IH1: "length (if ?v = 0 then [] else digits (nat ?v)) \<le> length ds"
    and IH2: "replicate (length ds - length (if ?v = 0 then [] else digits (nat ?v))) (CHR ''0'')
        @ (if ?v = 0 then [] else digits (nat ?v)) = ds" by simp_all
  show ?case
  proof (cases "10 * ?v + ?d = 0")
    case True
    with v0 d have z: "?v = 0" "?d = 0" by linarith+
    from c z(2) have "c = CHR ''0''" using digit_char_digit_val [of c] by (simp add: digit_char_def)
    from IH2 z have r: "replicate (length ds) (CHR ''0'') = ds" by simp
    have "replicate (Suc (length ds)) (CHR ''0'') = replicate (length ds) (CHR ''0'') @ [c]"
      using \<open>c = CHR ''0''\<close> by (simp add: replicate_append_same)
    also have "\<dots> = ds @ [c]" by (simp only: r)
    finally have "replicate (Suc (length ds)) (CHR ''0'') = ds @ [c]" .
    moreover from True have "decimal_value 0 (ds @ [c]) = 0" by (simp add: val)
    ultimately show ?thesis by simp
  next
    case False
    have "digits (nat (10 * ?v + ?d)) = (if ?v = 0 then [] else digits (nat ?v)) @ [c]"
      using digits_step [of "nat ?d" "nat ?v"] d v0 digit_char_digit_val [OF c]
      by (simp add: natv)
    with False IH1 IH2 show ?thesis by (simp add: val Suc_diff_le)
  qed
qed

lemma zfill_digits_roundtrip:
  assumes "list_all is_decimal ds" "ds \<noteq> []"
  shows "zfill (length ds) (digits (nat (decimal_value 0 ds))) = ds"
proof (cases "decimal_value 0 ds = 0")
  case True
  with stripped_digits_roundtrip [OF assms(1)] have "replicate (length ds) (CHR ''0'') = ds" by simp
  moreover have "digits 0 = ''0''" by (simp add: digits.simps digit_char_def)
  moreover from assms(2) have "replicate (length ds - 1) (CHR ''0'') @ ''0'' = replicate (length ds) (CHR ''0'')"
    by (cases ds) (simp_all add: replicate_append_same)
  ultimately show ?thesis using True by (simp add: zfill_def)
next
  case False
  with stripped_digits_roundtrip [OF assms(1)] show ?thesis by (simp add: zfill_def)
qed


lemma decimal_not_dash: "is_decimal c \<Longrightarrow> c \<noteq> CHR ''-''"
  by (auto simp: is_decimal_def)

lemma isleap_gregorian: "isleap y \<longleftrightarrow> (y mod 4 = 0 \<and> y mod 100 \<noteq> 0) \<or> y mod 400 = 0"
proof -
  have "y mod 4 = 0" if "y mod 400 = 0"
  proof -
    have "y mod 4 = (y mod 400) mod 4" by (simp add: mod_mod_cancel)
    with that show ?thesis by simp
  qed
  then show ?thesis unfolding isleap_def by auto
qed

lemma monthrange_month_length:
  assumes "1 \<le> m" "m \<le> 12"
  shows "mdays ! nat m + (if m = 2 \<and> isleap y then 1 else 0) = month_length y m"
proof -
  from assms have "m = 1 \<or> m = 2 \<or> m = 3 \<or> m = 4 \<or> m = 5 \<or> m = 6 \<or> m = 7 \<or> m = 8 \<or> m = 9
      \<or> m = 10 \<or> m = 11 \<or> m = 12" by arith
  then show ?thesis
    by (elim disjE) (simp_all add: mdays_def month_length_def isleap_gregorian)
qed

lemma month_length_range: "28 \<le> month_length y m \<and> month_length y m \<le> 31"
  by (simp add: month_length_def)

lemma decimal_value_4:
  assumes "list_all is_decimal [a, b, c, d]"
  shows "decimal_value 0 [a, b, c, d] \<le> 9999"
proof -
  from assms have "digit_val a \<le> 9" "digit_val b \<le> 9" "digit_val c \<le> 9" "digit_val d \<le> 9"
    by (auto dest: digit_val_decimal)
  then show ?thesis by (simp add: decimal_value_def)
qed

lemma month_ends_year_month:
  assumes "year_month_text s"
  shows "month_ends s =
     Inr (s @ ''-01'',
          s @ ''-'' @ zfill 2 (digits (nat (month_length (decimal_value 0 (take 4 s))
                                             (decimal_value 0 (drop 5 s))))))"
proof -
  from assms obtain y1 y2 y3 y4 m1 m2 where s: "s = [y1, y2, y3, y4, CHR ''-'', m1, m2]"
    and dy: "list_all is_decimal [y1, y2, y3, y4]" and dm: "list_all is_decimal [m1, m2]"
    and y1: "1 \<le> decimal_value 0 [y1, y2, y3, y4]"
    and m1: "1 \<le> decimal_value 0 [m1, m2]" and m12: "decimal_value 0 [m1, m2] \<le> 12"
    by (auto simp: year_month_text_def split: list.splits)
  let ?y = "decimal_value 0 [y1, y2, y3, y4]"
  let ?m = "decimal_value 0 [m1, m2]"
  from dy dm have nd: "y1 \<noteq> CHR ''-''" "y2 \<noteq> CHR ''-''" "y3 \<noteq> CHR ''-''" "y4 \<noteq> CHR ''-''"
    "m1 \<noteq> CHR ''-''" "m2 \<noteq> CHR ''-''"
    by (auto dest: decimal_not_dash)
  then have split: "split_on (CHR ''-'') s = [[y1, y2, y3, y4], [m1, m2]]"
    by (simp add: s)
  have iy: "py_int [y1, y2, y3, y4] = Inr ?y" using dy by (intro py_int_decimal) simp_all
  have im: "py_int [m1, m2] = Inr ?m" using dm by (intro py_int_decimal) simp_all
  from decimal_value_4 [OF dy] have y9999: "?y \<le> 9999" .
  have ml: "mdays ! nat ?m + (if ?m = 2 \<and> isleap ?y then 1 else 0) = month_length ?y ?m"
    using m1 m12 by (rule monthrange_month_length)
  have range: "28 \<le> month_length ?y ?m" "month_length ?y ?m \<le> 31"
    using month_length_range [of ?y ?m] by simp_all
  have d1: "date ?y ?m 1 = Inr (?y, ?m, 1)"
    using y1 y9999 m1 m12 range by (simp add: date_def c_int_def ml)
  have mr: "monthrange_ndays ?y ?m = Inr (month_length ?y ?m)"
    using m1 m12 by (simp add: monthrange_ndays_def ml)
  have d2: "date ?y ?m (month_length ?y ?m) = Inr (?y, ?m, month_length ?y ?m)"
    using y1 y9999 m1 m12 range by (simp add: date_def c_int_def ml)
  have zy: "zfill 4 (digits (nat ?y)) = [y1, y2, y3, y4]"
    using zfill_digits_roundtrip [OF dy] by (simp add: eval_nat_numeral)
  have zm: "zfill 2 (digits (nat ?m)) = [m1, m2]"
    using zfill_digits_roundtrip [OF dm] by (simp add: eval_nat_numeral)
  have z1: "zfill 2 (digits (Suc 0)) = ''01''"
    by code_simp
  show ?thesis
    by (simp add: month_ends_def split iy im d1 mr d2 str_date_def zy zm z1) (simp add: s)
qed

text \<open>
  C6: for every valid \<^verbatim>\<open>YYYY-MM\<close> string, \<^verbatim>\<open>month_ends\<close> returns the first and the last
  day of that month as \<^verbatim>\<open>YYYY-MM-DD\<close> strings: the string followed by \<^verbatim>\<open>-01\<close>, and the
  string followed by the length of the month, which is 28 to 31 and follows the leap years
  in February.
\<close>

theorem month_ends_first_and_last_day:
  assumes "year_month_text s"
  shows "month_ends s =
     Inr (s @ ''-01'',
          s @ ''-'' @ zfill 2 (digits (nat (month_length (decimal_value 0 (take 4 s))
                                             (decimal_value 0 (drop 5 s))))))"
  using assms by (rule month_ends_year_month)

theorem month_ends_first_and_last_day_witness:
  "year_month_text ''2024-02'' \<and> month_ends ''2024-02'' = Inr (''2024-02-01'', ''2024-02-29'')
   \<and> year_month_text ''1900-02'' \<and> month_ends ''1900-02'' = Inr (''1900-02-01'', ''1900-02-28'')
   \<and> year_month_text ''2023-11'' \<and> month_ends ''2023-11'' = Inr (''2023-11-01'', ''2023-11-30'')"
proof -
  have a: "year_month_text ''2024-02''" and b: "year_month_text ''1900-02''"
    and c: "year_month_text ''2023-11''"
    by (simp_all add: year_month_text_def decimal_value_def char_eval)
  have la: "zfill 2 (digits (nat (month_length (decimal_value 0 ''2024'')
               (decimal_value 0 ''02'')))) = ''29''"
    and lb: "zfill 2 (digits (nat (month_length (decimal_value 0 ''1900'')
               (decimal_value 0 ''02'')))) = ''28''"
    and lc: "zfill 2 (digits (nat (month_length (decimal_value 0 ''2023'')
               (decimal_value 0 ''11'')))) = ''30''"
    by (simp_all add: month_length_def decimal_value_def char_eval int_eval)
  from month_ends_first_and_last_day [OF a] month_ends_first_and_last_day [OF b]
    month_ends_first_and_last_day [OF c] a b c
  show ?thesis by (simp add: la lb lc)
qed

section \<open>The query builder: errors\<close>

lemma range_check_never_raises: "range_check start_date end_date = Inr ()"
  by (auto simp: range_check_def except_ValueError_def invalid_literal_def
      dest!: py_int_error split: sum.splits py_error.splits)


lemma except_ValueError_error: "except_ValueError body fallback = Inl e \<Longrightarrow> e \<noteq> ValueError msg"
  by (auto simp: except_ValueError_def split: sum.splits py_error.splits)

lemma normalize_dates_error: "normalize_dates s e = Inl x \<Longrightarrow> x \<noteq> ValueError msg"
  by (auto simp: normalize_dates_def split: sum.splits dest: except_ValueError_error)

lemma validate_date_error:
  "validate_date s = Inl x \<Longrightarrow> x = ValueError dates_message \<or> (\<forall>msg. x \<noteq> ValueError msg)"
  by (auto simp: validate_date_def dates_message_def split: sum.splits bool.splits
      dest: except_ValueError_error)

lemma build_query_never_invalid_range:
  "build_query AGGREGATES Downloads project all_fields start_date end_date days limit where_arg
     order pip \<noteq> Inl (ValueError ''End date must be greater than start date.'')"
proof
  assume a: "build_query AGGREGATES Downloads project all_fields start_date end_date days limit
     where_arg order pip = Inl (ValueError ''End date must be greater than start date.'')"
  then show False
    by (auto simp: build_query_def Let_def range_check_never_raises invalid_literal_def
        dates_message_def
        split: sum.splits prod.splits option.splits if_splits
        dest!: py_int_error normalize_dates_error validate_date_error)
qed

text \<open>
  C1 (defect of the code): with two relative bounds and \<open>start \<ge> end\<close> the builder is to fail
  with \<^verbatim>\<open>End date must be greater than start date.\<close> and produce no text.  The
  \<^verbatim>\<open>raise\<close> sits inside the \<^verbatim>\<open>try\<close> whose handler is \<^verbatim>\<open>except ValueError: pass\<close>, so
  the error is swallowed: for \<^verbatim>\<open>start_date='-1'\<close>, \<^verbatim>\<open>end_date='-7'\<close> the builder
  returns the text of a query over the reversed range.
\<close>

theorem build_query_reversed_range_returns_query:
  \<open>build_query [sample_Percent3] sample_Downloads ''requests'' [] (Some ''-1'') (Some ''-7'')
     None None None None False =
   Inr (''SELECT\<newline>''
      @ ''  COUNT(*) as download_count,\<newline>''
      @ ''FROM `bigquery-public-data.pypi.file_downloads`\<newline>''
      @ ''WHERE timestamp BETWEEN TIMESTAMP_ADD(CURRENT_TIMESTAMP(), INTERVAL -1 DAY) AND TIMESTAMP_ADD(CURRENT_TIMESTAMP(), INTERVAL -7 DAY)\<newline>''
      @ ''  AND file.project = "requests"\<newline>''
      @ ''ORDER BY\<newline>''
      @ ''  download_count DESC\<newline>''
      @ ''LIMIT 10'')\<close>
  by (simp add: char_eval int_eval date_eval query_eval)




section \<open>The query builder: selected fields and grouping\<close>

lemma select_clause_lines:
  "foldl (\<lambda>query field. query @ line field) init fs = init @ concat (map line fs)"
  by (induction fs arbitrary: init) auto

lemma dedup_fields_first_occurrences:
  "dedup_fields all_fields fs used_fields
     = fs @ first_occurrences (filter (\<lambda>f. f \<notin> used_fields) all_fields)"
proof (induction all_fields arbitrary: fs used_fields)
  case Nil
  then show ?case by simp
next
  case (Cons f all_fields)
  have "removeAll f (filter (\<lambda>f. f \<notin> used_fields) all_fields)
          = filter (\<lambda>g. g \<notin> insert f used_fields) all_fields"
    by (induction all_fields) auto
  with Cons show ?case by simp
qed

lemma set_first_occurrences: "set (first_occurrences xs) = set xs"
proof (induction xs rule: first_occurrences.induct)
  case 1
  then show ?case by simp
next
  case (2 x xs)
  then show ?case by auto
qed

lemma distinct_first_occurrences: "distinct (first_occurrences xs)"
proof (induction xs rule: first_occurrences.induct)
  case 1
  then show ?case by simp
next
  case (2 x xs)
  then show ?case by (simp add: set_first_occurrences)
qed

lemma first_occurrences_distinct: "distinct xs \<Longrightarrow> first_occurrences xs = xs"
  by (induction xs) auto

lemma select_fields_eq: "select_fields Downloads all_fields = first_occurrences all_fields @ [Downloads]"
  by (simp add: select_fields_def dedup_fields_first_occurrences)

lemma count_list_once: "x \<notin> set xs \<Longrightarrow> count_list (xs @ [x]) x = 1"
  by (induction xs) auto

lemma build_query_select:
  assumes "build_query AGGREGATES Downloads project all_fields start_date end_date days limit
             where_arg order pip = Inr query"
  shows "\<exists>rest. query = ''SELECT\<newline>''
            @ concat (map (\<lambda>field. ''  '' @ data field @ '' as '' @ name field @ '',\<newline>'')
                (first_occurrences all_fields @ [Downloads]))
            @ FROM @ rest"
  using assms
  by (auto simp: build_query_def Let_def select_clause_def select_clause_lines select_fields_eq
      split: sum.splits prod.splits)

lemma build_query_default_bounds:
  "\<exists>query. build_query AGGREGATES Downloads project all_fields None None None limit where_arg
     order pip = Inr query"
proof -
  have n: "normalize_dates ''-31'' ''-1'' = Inr (''-31'', ''-1'')"
    by (simp add: char_eval int_eval date_eval)
  have v: "validate_date ''-31'' = Inr True" "validate_date ''-1'' = Inr True"
    by (simp_all add: char_eval int_eval date_eval)
  show ?thesis
    by (simp add: build_query_def Let_def or_default_def START_DATE_def END_DATE_def n v
        range_check_never_raises)
qed

text \<open>
  C4 (defect of the code): when every requested field is an aggregate the
  \<^verbatim>\<open>GROUP BY\<close> clause is to be omitted.  The guard \<^verbatim>\<open>len(gb) > initial_length\<close> is
  evaluated after the indentation and the newline were appended, so it always holds: for
  the single aggregate \<^verbatim>\<open>percent_3\<close> the query carries a \<^verbatim>\<open>GROUP BY\<close> with an empty list.
\<close>

theorem build_query_only_aggregates_emits_group_by:
  \<open>build_query [sample_Percent3] sample_Downloads ''requests'' [sample_Percent3] None None
     None None None None False =
   Inr (''SELECT\<newline>''
      @ ''  ROUND(100 * SUM(py3) / COUNT(*), 1) as percent_3,\<newline>''
      @ ''  COUNT(*) as download_count,\<newline>''
      @ ''FROM `bigquery-public-data.pypi.file_downloads`\<newline>''
      @ ''WHERE timestamp BETWEEN TIMESTAMP_ADD(CURRENT_TIMESTAMP(), INTERVAL -31 DAY) AND TIMESTAMP_ADD(CURRENT_TIMESTAMP(), INTERVAL -1 DAY)\<newline>''
      @ ''  AND file.project = "requests"\<newline>''
      @ ''GROUP BY\<newline>''
      @ ''  \<newline>''
      @ ''ORDER BY\<newline>''
      @ ''  download_count DESC\<newline>''
      @ ''LIMIT 10'')\<close>
  by (simp add: char_eval int_eval date_eval query_eval)

text \<open>
  C5, as the claim states it, fails when the requested list contains \<^verbatim>\<open>Downloads\<close>: the
  field is kept at its requested position and appended again.
\<close>

theorem build_query_requested_downloads_selected_twice:
  \<open>build_query [sample_Percent3] sample_Downloads ''requests'' [sample_Downloads] None None
     None None None None False =
   Inr (''SELECT\<newline>''
      @ ''  COUNT(*) as download_count,\<newline>''
      @ ''  COUNT(*) as download_count,\<newline>''
      @ ''FROM `bigquery-public-data.pypi.file_downloads`\<newline>''
      @ ''WHERE timestamp BETWEEN TIMESTAMP_ADD(CURRENT_TIMESTAMP(), INTERVAL -31 DAY) AND TIMESTAMP_ADD(CURRENT_TIMESTAMP(), INTERVAL -1 DAY)\<newline>''
      @ ''  AND file.project = "requests"\<newline>''
      @ ''GROUP BY\<newline>''
      @ ''  download_count\<newline>''
      @ ''ORDER BY\<newline>''
      @ ''  download_count DESC\<newline>''
      @ ''LIMIT 10'')
   \<and> count_list (select_fields sample_Downloads [sample_Downloads]) sample_Downloads = 2\<close>
  by (simp add: char_eval int_eval date_eval query_eval)

text \<open>
  C5 (amended): for every requested field list, the builder returns a query when the
  bounds are left to their defaults, and the \<^verbatim>\<open>SELECT\<close> of every query it returns lists
  the requested fields without repetitions, each at its first position, followed by
  \<^verbatim>\<open>Downloads\<close>, which is last; \<^verbatim>\<open>Downloads\<close> is listed exactly once when the requested
  list does not contain it.
\<close>

theorem build_query_select_deduplicated:
  "(\<exists>query. build_query AGGREGATES Downloads project all_fields None None None limit where_arg
       order pip = Inr query)
   \<and> (build_query AGGREGATES Downloads project all_fields start_date end_date days limit
         where_arg order pip = Inr query
       \<longrightarrow> (\<exists>rest. query = ''SELECT\<newline>''
            @ concat (map (\<lambda>field. ''  '' @ data field @ '' as '' @ name field @ '',\<newline>'')
                (first_occurrences all_fields @ [Downloads]))
            @ FROM @ rest))
   \<and> select_fields Downloads all_fields = first_occurrences all_fields @ [Downloads]
   \<and> distinct (first_occurrences all_fields)
   \<and> set (first_occurrences all_fields) = set all_fields
   \<and> last (select_fields Downloads all_fields) = Downloads
   \<and> (Downloads \<notin> set all_fields
        \<longrightarrow> count_list (select_fields Downloads all_fields) Downloads = 1)"
  using build_query_select [of AGGREGATES Downloads project all_fields start_date end_date days
      limit where_arg order pip query]
    build_query_default_bounds [of AGGREGATES Downloads project all_fields limit where_arg order pip]
  by (simp add: select_fields_eq distinct_first_occurrences set_first_occurrences count_list_once)

theorem build_query_select_deduplicated_witness:
  \<open>build_query [sample_Percent3] sample_Downloads ''requests''
     [Field ''project'' ''file.project'', sample_Percent3, Field ''project'' ''file.project'']
     None None None None None None False =
   Inr (''SELECT\<newline>''
      @ ''  file.project as project,\<newline>''
      @ ''  ROUND(100 * SUM(py3) / COUNT(*), 1) as percent_3,\<newline>''
      @ ''  COUNT(*) as download_count,\<newline>''
      @ ''FROM `bigquery-public-data.pypi.file_downloads`\<newline>''
      @ ''WHERE timestamp BETWEEN TIMESTAMP_ADD(CURRENT_TIMESTAMP(), INTERVAL -31 DAY) AND TIMESTAMP_ADD(CURRENT_TIMESTAMP(), INTERVAL -1 DAY)\<newline>''
      @ ''  AND file.project = "requests"\<newline>''
      @ ''GROUP BY\<newline>''
      @ ''  project\<newline>''
      @ ''ORDER BY\<newline>''
      @ ''  download_count DESC\<newline>''
      @ ''LIMIT 10'')
   \<and> select_fields sample_Downloads
         [Field ''project'' ''file.project'', sample_Percent3, Field ''project'' ''file.project'']
       = [Field ''project'' ''file.project'', sample_Percent3, sample_Downloads]
   \<and> count_list (select_fields sample_Downloads
         [Field ''project'' ''file.project'', sample_Percent3, Field ''project'' ''file.project''])
         sample_Downloads = 1\<close>
proof -
  have q: \<open>build_query [sample_Percent3] sample_Downloads ''requests''
     [Field ''project'' ''file.project'', sample_Percent3, Field ''project'' ''file.project'']
     None None None None None None False =
   Inr (''SELECT\<newline>''
      @ ''  file.project as project,\<newline>''
      @ ''  ROUND(100 * SUM(py3) / COUNT(*), 1) as percent_3,\<newline>''
      @ ''  COUNT(*) as download_count,\<newline>''
      @ ''FROM `bigquery-public-data.pypi.file_downloads`\<newline>''
      @ ''WHERE timestamp BETWEEN TIMESTAMP_ADD(CURRENT_TIMESTAMP(), INTERVAL -31 DAY) AND TIMESTAMP_ADD(CURRENT_TIMESTAMP(), INTERVAL -1 DAY)\<newline>''
      @ ''  AND file.project = "requests"\<newline>''
      @ ''GROUP BY\<newline>''
      @ ''  project\<newline>''
      @ ''ORDER BY\<newline>''
      @ ''  download_count DESC\<newline>''
      @ ''LIMIT 10'')\<close>
    by (simp add: char_eval int_eval date_eval query_eval)
  from build_query_select_deduplicated [where AGGREGATES = "[sample_Percent3]"
      and Downloads = sample_Downloads and project = "''requests''"
      and all_fields = "[Field ''project'' ''file.project'', sample_Percent3,
                         Field ''project'' ''file.project'']"
      and start_date = None and end_date = None and days = None and limit = None
      and where_arg = None and order = None and pip = False] q
  show ?thesis
    by (simp add: sample_Downloads_def sample_Percent3_def)
qed

section \<open>Percentages\<close>



lemma py_int_count_cell: "count_cell s \<Longrightarrow> py_int s = Inr (decimal_value 0 s)"
  by (simp add: count_cell_def py_int_decimal)











section \<open>The table renderer\<close>

text \<open>
  C2 (defect of the code): the width of a column is to be the greatest length of its cells
  as they are displayed, a digit-only cell being measured after the thousands separators
  were put in.  The width pass rewrites \<^verbatim>\<open>rows[r][i]\<close> and then measures \<^verbatim>\<open>len(item)\<close>, the
  cell as it was before.  For the header \<^verbatim>\<open>n\<close> over the cell \<^verbatim>\<open>1234567\<close> the column is
  7 wide and the displayed cell \<^verbatim>\<open>1,234,567\<close>, 9 wide, sticks out of it.
\<close>

theorem tabulate_width_of_unseparated_cell:
  "tabulate [[''n''], [''1234567'']] False =
   Inr (''| n       |\<newline>''
      @ ''| ------- |\<newline>''
      @ ''| 1,234,567 |\<newline>'')"
  by (simp add: char_eval int_eval table_eval)

section \<open>Alignment in the table renderer\<close>

lemma flag_set_shared:
  "flag_set (shared_flags m flags) r i =
     (if r < m \<and> i < length flags then Inr (shared_flags m (flags[i := True])) else Inl IndexError)"
  by (simp add: flag_set_def shared_flags_def getitem_def)

lemma flag_get_shared:
  "flag_get (shared_flags m flags) r i = (if r < m then getitem flags i else Inl IndexError)"
  by (simp add: flag_get_def shared_flags_def getitem_def)

lemma length_mark_cells [simp]: "length (mark_cells flags i items) = length flags"
  by (induction items arbitrary: flags i) auto

lemma length_widen [simp]: "length (widen widths i items) = length widths"
  by (induction items arbitrary: widths i) auto

lemma mark_step_shared:
  assumes "(if isdigit item then
              (case py_int item of Inl e \<Rightarrow> Inl e | Inr n \<Rightarrow>
              (case flag_set (shared_flags m flags) r i of Inl e \<Rightarrow> Inl e
               | Inr right_align' \<Rightarrow> Inr (thousands n, right_align')))
            else if endswith item ''%'' then
              (case flag_set (shared_flags m flags) r i of Inl e \<Rightarrow> Inl e
               | Inr right_align' \<Rightarrow> Inr (item, right_align'))
            else Inr (item, shared_flags m flags)) = Inr (cell, st1)"
  shows "cell = displayed item
         \<and> st1 = shared_flags m (if marked item then flags[i := True] else flags)"
  using assms
  by (auto simp: flag_set_shared displayed_def marked_def split: if_splits sum.splits)

lemma scan_row_shared:
  assumes "scan_row r i items widths (shared_flags m flags) = Inr (cells, widths', st')"
  shows "cells = map displayed items \<and> widths' = widen widths i items
         \<and> st' = shared_flags m (mark_cells flags i items)"
  using assms
proof (induction items arbitrary: i widths flags cells)
  case Nil
  then show ?case by simp
next
  case (Cons item items)
  from Cons.prems obtain cell st1 w cells0 where
    step: "(if isdigit item then
              (case py_int item of Inl e \<Rightarrow> Inl e | Inr n \<Rightarrow>
              (case flag_set (shared_flags m flags) r i of Inl e \<Rightarrow> Inl e
               | Inr right_align' \<Rightarrow> Inr (thousands n, right_align')))
            else if endswith item ''%'' then
              (case flag_set (shared_flags m flags) r i of Inl e \<Rightarrow> Inl e
               | Inr right_align' \<Rightarrow> Inr (item, right_align'))
            else Inr (item, shared_flags m flags)) = Inr (cell, st1)"
    and w: "getitem widths i = Inr w"
    and rec: "scan_row r (Suc i) items
                (if length item > w then widths[i := length item] else widths) st1
              = Inr (cells0, widths', st')"
    and cells: "cells = cell # cells0"
    by (simp add: Let_def split: sum.splits prod.splits)
  from mark_step_shared [OF step] have cell: "cell = displayed item"
    and st1: "st1 = shared_flags m (if marked item then flags[i := True] else flags)"
    by simp_all
  from w have wi: "i < length widths" "w = widths ! i" by (auto simp: getitem_def split: if_splits)
  then have upd: "(if length item > w then widths[i := length item] else widths)
                    = widths[i := max (widths ! i) (length item)]"
    by (auto simp: max_def list_update_same_conv)
  from Cons.IH [OF rec [unfolded upd st1]] cell cells show ?case by simp
qed

lemma scan_rows_shared:
  assumes "scan_rows r rows widths (shared_flags m flags) = Inr (rows', widths', st')"
  shows "rows' = map (map displayed) rows
         \<and> widths' = fold (\<lambda>row ws. widen ws 0 row) rows widths
         \<and> st' = shared_flags m (fold (\<lambda>row fs. mark_cells fs 0 row) rows flags)"
  using assms
proof (induction rows arbitrary: r widths flags rows')
  case Nil
  then show ?case by simp
next
  case (Cons row rows)
  from Cons.prems obtain row1 widths1 st1 rows0 where
    a: "scan_row r 0 row widths (shared_flags m flags) = Inr (row1, widths1, st1)"
    and b: "scan_rows (Suc r) rows widths1 st1 = Inr (rows0, widths', st')"
    and c: "rows' = row1 # rows0"
    by (simp split: sum.splits prod.splits)
  from scan_row_shared [OF a] have row1: "row1 = map displayed row"
    and w1: "widths1 = widen widths 0 row"
    and st1: "st1 = shared_flags m (mark_cells flags 0 row)" by simp_all
  from Cons.IH [OF b [unfolded st1]] row1 w1 c show ?case by simp
qed

lemma nth_mark_cells:
  "j < length flags \<Longrightarrow>
   mark_cells flags i items ! j
     = (flags ! j \<or> (i \<le> j \<and> j < i + length items \<and> marked (items ! (j - i))))"
proof (induction items arbitrary: flags i)
  case Nil
  then show ?case by auto
next
  case (Cons item items)
  let ?f = "if marked item then flags[i := True] else flags"
  have len: "j < length ?f" using Cons.prems by simp
  have here: "?f ! j = (flags ! j \<or> (j = i \<and> marked item))"
    using Cons.prems by (cases "i = j") auto
  have "mark_cells flags i (item # items) ! j = mark_cells ?f (Suc i) items ! j" by simp
  also have "\<dots> = (?f ! j \<or> (Suc i \<le> j \<and> j < Suc i + length items \<and> marked (items ! (j - Suc i))))"
    by (rule Cons.IH [OF len])
  also have "\<dots> = ((flags ! j \<or> (j = i \<and> marked item))
      \<or> (Suc i \<le> j \<and> j < Suc i + length items \<and> marked (items ! (j - Suc i))))"
    by (simp only: here)
  also have "\<dots> = (flags ! j \<or> (i \<le> j \<and> j < i + length (item # items)
                       \<and> marked ((item # items) ! (j - i))))"
    by (cases "j = i") (auto simp: nth_Cons' Suc_le_eq)
  finally show ?case .
qed

lemma nth_widen:
  "j < length widths \<Longrightarrow>
   widen widths i items ! j
     = max (widths ! j) (if i \<le> j \<and> j < i + length items then length (items ! (j - i)) else 0)"
proof (induction items arbitrary: widths i)
  case Nil
  then show ?case by auto
next
  case (Cons item items)
  let ?w = "widths[i := max (widths ! i) (length item)]"
  have len: "j < length ?w" using Cons.prems by simp
  have here: "?w ! j = max (widths ! j) (if j = i then length item else 0)"
    using Cons.prems by (cases "i = j") auto
  have "widen widths i (item # items) ! j = widen ?w (Suc i) items ! j" by simp
  also have "\<dots> = max (?w ! j)
      (if Suc i \<le> j \<and> j < Suc i + length items then length (items ! (j - Suc i)) else 0)"
    by (rule Cons.IH [OF len])
  also have "\<dots> = max (max (widths ! j) (if j = i then length item else 0))
      (if Suc i \<le> j \<and> j < Suc i + length items then length (items ! (j - Suc i)) else 0)"
    by (simp only: here)
  also have "\<dots> = max (widths ! j)
      (if i \<le> j \<and> j < i + length (item # items) then length ((item # items) ! (j - i)) else 0)"
    by (cases "j = i") (auto simp: nth_Cons' Suc_le_eq)
  finally show ?case .
qed

lemma nth_fold_mark_cells:
  "j < length flags \<Longrightarrow>
   fold (\<lambda>row fs. mark_cells fs 0 row) rows flags ! j
     = (flags ! j \<or> column_marked rows j)"
proof (induction rows arbitrary: flags)
  case Nil
  then show ?case by (simp add: column_marked_def)
next
  case (Cons row rows)
  then show ?case by (auto simp: nth_mark_cells column_marked_def)
qed

lemma nth_fold_widen:
  "j < length widths \<Longrightarrow>
   fold (\<lambda>row ws. widen ws 0 row) rows widths ! j = max (widths ! j) (raw_width rows j)"
proof (induction rows arbitrary: widths)
  case Nil
  then show ?case by (simp add: raw_width_def)
next
  case (Cons row rows)
  then show ?case by (auto simp: nth_widen raw_width_def max_def)
qed

lemma length_fold_mark_cells [simp]:
  "length (fold (\<lambda>row fs. mark_cells fs 0 row) rows flags) = length flags"
  by (induction rows arbitrary: flags) auto

lemma length_fold_widen [simp]:
  "length (fold (\<lambda>row ws. widen ws 0 row) rows widths) = length widths"
  by (induction rows arbitrary: widths) auto

lemma render_cells_shared:
  assumes "render_cells widths (shared_flags m flags) r i items = Inr out"
  shows "out = concat (map (\<lambda>(j, item). cell_text (widths ! j) (flags ! j) item) (enumerate i items))
         \<and> (\<forall>j. i \<le> j \<longrightarrow> j < i + length items \<longrightarrow> j < length flags)"
  using assms
proof (induction items arbitrary: i out)
  case Nil
  then show ?case by simp
next
  case (Cons item items)
  from Cons.prems obtain w right rest where w: "getitem widths i = Inr w"
    and f: "flag_get (shared_flags m flags) r i = Inr right"
    and rec: "render_cells widths (shared_flags m flags) r (Suc i) items = Inr rest"
    and out: "out = ''| '' @ (if right then spaces (int w - int (length item)) @ item @ '' ''
                         else item @ spaces (int w - int (length item) + 1)) @ rest"
    by (simp add: Let_def split: sum.splits)
  from w have wi: "w = widths ! i" by (auto simp: getitem_def split: if_splits)
  from f have fi: "i < length flags" "right = flags ! i"
    by (auto simp: flag_get_shared getitem_def split: if_splits)
  from Cons.IH [OF rec] have rest: "rest = concat (map (\<lambda>(j, item). cell_text (widths ! j) (flags ! j) item)
                          (enumerate (Suc i) items))"
    and bound: "\<forall>j. Suc i \<le> j \<longrightarrow> j < Suc i + length items \<longrightarrow> j < length flags"
    by simp_all
  have "j < length flags" if "i \<le> j" "j < i + length (item # items)" for j
  proof (cases "j = i")
    case True
    with fi show ?thesis by simp
  next
    case False
    with that bound show ?thesis by simp
  qed
  moreover from wi fi out rest
  have "out = concat (map (\<lambda>(j, item). cell_text (widths ! j) (flags ! j) item)
                      (enumerate i (item # items)))"
    by (simp add: cell_text_def)
  ultimately show ?case by blast
qed

lemma render_rows_shared:
  assumes "render_rows widths (shared_flags m flags) r rows = Inr out"
  shows "out = concat (map (\<lambda>row. concat (map (\<lambda>(j, item). cell_text (widths ! j) (flags ! j) item)
                                       (enumerate 0 row)) @ ''|\<newline>'') rows)
         \<and> (\<forall>row \<in> set rows. length row \<le> length flags)"
  using assms
proof (induction rows arbitrary: r out)
  case Nil
  then show ?case by simp
next
  case (Cons row rows)
  from Cons.prems obtain cells rest where
    a: "render_cells widths (shared_flags m flags) r 0 row = Inr cells"
    and b: "render_rows widths (shared_flags m flags) (Suc r) rows = Inr rest"
    and c: "out = cells @ ''|\<newline>'' @ rest"
    by (simp split: sum.splits)
  have "length row \<le> length flags"
  proof (cases row)
    case Nil
    then show ?thesis by simp
  next
    case (Cons x xs)
    with render_cells_shared [OF a] have "length xs < length flags" by simp
    with Cons show ?thesis by simp
  qed
  with render_cells_shared [OF a] Cons.IH [OF b] c show ?case by simp
qed

lemma new_right_align_shared: "new_right_align n m = shared_flags m (replicate n False)"
  by (simp add: new_right_align_def shared_flags_def)

lemma tabulate_body:
  assumes "tabulate rows markdown = Inr out"
  shows "\<exists>top. out = top @ concat (map (\<lambda>row. concat (map (\<lambda>(j, item).
                  cell_text (raw_width rows j) (column_marked rows j) item)
                    (enumerate 0 (map displayed row))) @ ''|\<newline>'') (tl rows))"
proof -
  from assms obtain first_row rest_rows where rows: "rows = first_row # rest_rows"
    by (cases rows) (auto simp: tabulate_def)
  let ?n = "length first_row"
  let ?m = "Suc (length rest_rows)"
  let ?flags = "fold (\<lambda>row fs. mark_cells fs 0 row) rows (replicate ?n False)"
  let ?widths = "fold (\<lambda>row ws. widen ws 0 row) rows (replicate ?n 0)"
  from assms rows obtain rows' widths st' where
    scan: "scan_rows 0 rows (replicate ?n 0) (shared_flags ?m (replicate ?n False))
             = Inr (rows', widths, st')"
    by (auto simp: tabulate_def Let_def new_right_align_shared simp del: scan_rows.simps
        split: sum.splits)
  from scan_rows_shared [OF scan] have rows': "rows' = map (map displayed) rows"
    and widths: "widths = ?widths" and st': "st' = shared_flags ?m ?flags"
    by simp_all
  from assms rows scan rows' obtain top body where
    body: "render_rows widths st' 0 (map (map displayed) rest_rows) = Inr body"
    and out: "out = top @ body"
    by (auto simp: tabulate_def Let_def new_right_align_shared simp del: scan_rows.simps
        split: sum.splits list.splits)
  from render_rows_shared [OF body [unfolded st']]
  have b1: "body = concat (map (\<lambda>row. concat (map (\<lambda>(j, item).
                  cell_text (widths ! j) (?flags ! j) item) (enumerate 0 row)) @ ''|\<newline>'')
                (map (map displayed) rest_rows))"
    and b2: "\<forall>row \<in> set (map (map displayed) rest_rows). length row \<le> ?n"
    by simp_all
  have nth: "widths ! j = raw_width rows j \<and> ?flags ! j = column_marked rows j" if "j < ?n" for j
    using that by (simp add: widths nth_fold_widen nth_fold_mark_cells)
  have "concat (map (\<lambda>(j, item). cell_text (widths ! j) (?flags ! j) item) (enumerate 0 row))
        = concat (map (\<lambda>(j, item). cell_text (raw_width rows j) (column_marked rows j) item)
            (enumerate 0 row))"
    if "row \<in> set (map (map displayed) rest_rows)" for row
  proof -
    from that b2 have len: "length row \<le> ?n" by blast
    have "map (\<lambda>(j, item). cell_text (widths ! j) (?flags ! j) item) (enumerate 0 row)
        = map (\<lambda>(j, item). cell_text (raw_width rows j) (column_marked rows j) item)
            (enumerate 0 row)"
    proof (rule map_cong [OF refl])
      fix p assume "p \<in> set (enumerate 0 row)"
      then have "fst p < length row" by (simp add: in_set_enumerate_eq)
      with len have "fst p < ?n" by simp
      from nth [OF this] show "(case p of (j, item) \<Rightarrow> cell_text (widths ! j) (?flags ! j) item)
          = (case p of (j, item) \<Rightarrow> cell_text (raw_width rows j) (column_marked rows j) item)"
        by (cases p) simp
    qed
    then show ?thesis by (rule arg_cong)
  qed
  then have "body = concat (map (\<lambda>row. concat (map (\<lambda>(j, item).
                  cell_text (raw_width rows j) (column_marked rows j) item) (enumerate 0 row))
                  @ ''|\<newline>'') (map (map displayed) rest_rows))"
    unfolding b1 by (intro arg_cong [where f = concat] map_cong) simp_all
  with out rows show ?thesis by (auto simp: comp_def)
qed

lemma scan_row_returns:
  assumes "i + length items \<le> length widths" "i + length items \<le> length flags" "r < m"
    and "list_all (\<lambda>cell. isdigit cell \<longrightarrow> count_cell cell) items"
  shows "\<exists>res. scan_row r i items widths (shared_flags m flags) = Inr res"
  using assms
proof (induction items arbitrary: i widths flags)
  case Nil
  then show ?case by simp
next
  case (Cons item items)
  let ?flags = "if marked item then flags[i := True] else flags"
  let ?widths = "if length item > widths ! i then widths[i := length item] else widths"
  from Cons.prems have i: "i < length widths" "i < length flags" by simp_all
  have step: "(if isdigit item then
              (case py_int item of Inl e \<Rightarrow> Inl e | Inr n \<Rightarrow>
              (case flag_set (shared_flags m flags) r i of Inl e \<Rightarrow> Inl e
               | Inr right_align' \<Rightarrow> Inr (thousands n, right_align')))
            else if endswith item ''%'' then
              (case flag_set (shared_flags m flags) r i of Inl e \<Rightarrow> Inl e
               | Inr right_align' \<Rightarrow> Inr (item, right_align'))
            else Inr (item, shared_flags m flags)) = Inr (displayed item, shared_flags m ?flags)"
    using Cons.prems(3,4) i
    by (auto simp: flag_set_shared displayed_def marked_def py_int_count_cell)
  have "\<exists>res. scan_row r (Suc i) items ?widths (shared_flags m ?flags) = Inr res"
    using Cons.prems by (intro Cons.IH) simp_all
  then obtain cells widths' st' where
    "scan_row r (Suc i) items ?widths (shared_flags m ?flags) = Inr (cells, widths', st')"
    by (metis prod_cases3)
  with step i show ?case by (simp add: getitem_def Let_def)
qed

lemma scan_rows_returns:
  assumes "list_all (\<lambda>row. length row \<le> length widths) rows" "length flags = length widths"
    and "r + length rows \<le> m"
    and "list_all (list_all (\<lambda>cell. isdigit cell \<longrightarrow> count_cell cell)) rows"
  shows "\<exists>res. scan_rows r rows widths (shared_flags m flags) = Inr res"
  using assms
proof (induction rows arbitrary: r widths flags)
  case Nil
  then show ?case by simp
next
  case (Cons row rows)
  from Cons.prems have "\<exists>res. scan_row r 0 row widths (shared_flags m flags) = Inr res"
    by (intro scan_row_returns) simp_all
  then obtain row1 widths1 st1 where
    a: "scan_row r 0 row widths (shared_flags m flags) = Inr (row1, widths1, st1)"
    by (metis prod_cases3)
  from scan_row_shared [OF a] have w1: "widths1 = widen widths 0 row"
    and st1: "st1 = shared_flags m (mark_cells flags 0 row)" by simp_all
  have "\<exists>res. scan_rows (Suc r) rows widths1 (shared_flags m (mark_cells flags 0 row)) = Inr res"
    using Cons.prems by (intro Cons.IH) (simp_all add: w1)
  then obtain rows1 widths2 st2 where
    "scan_rows (Suc r) rows widths1 st1 = Inr (rows1, widths2, st2)"
    unfolding st1 by (metis prod_cases3)
  with a show ?case by simp
qed

lemma render_headers_returns:
  "i + length items \<le> length widths \<Longrightarrow> \<exists>h. render_headers widths i items = Inr h"
proof (induction items arbitrary: i)
  case Nil
  then show ?case by simp
next
  case (Cons item items)
  then have "\<exists>h. render_headers widths (Suc i) items = Inr h" by (intro Cons.IH) simp
  with Cons.prems show ?case by (auto simp: getitem_def)
qed

lemma render_separator_returns:
  assumes "\<forall>i \<in> set cols. i < length widths \<and> i < length flags" "0 < m"
  shows "\<exists>sep. render_separator widths (shared_flags m flags) markdown cols = Inr sep"
  using assms
proof (induction cols)
  case Nil
  then show ?case by simp
next
  case (Cons i cols)
  then have "\<exists>sep. render_separator widths (shared_flags m flags) markdown cols = Inr sep"
    by simp
  with Cons.prems show ?case by (auto simp: getitem_def flag_get_shared)
qed

lemma render_cells_returns:
  assumes "i + length items \<le> length widths" "i + length items \<le> length flags" "r < m"
  shows "\<exists>cells. render_cells widths (shared_flags m flags) r i items = Inr cells"
  using assms
proof (induction items arbitrary: i)
  case Nil
  then show ?case by simp
next
  case (Cons item items)
  then have "\<exists>cells. render_cells widths (shared_flags m flags) r (Suc i) items = Inr cells"
    by (intro Cons.IH) simp_all
  with Cons.prems show ?case by (auto simp: getitem_def flag_get_shared Let_def)
qed

lemma render_rows_returns:
  assumes "list_all (\<lambda>row. length row \<le> length widths \<and> length row \<le> length flags) rows"
    and "r + length rows \<le> m"
  shows "\<exists>body. render_rows widths (shared_flags m flags) r rows = Inr body"
  using assms
proof (induction rows arbitrary: r)
  case Nil
  then show ?case by simp
next
  case (Cons row rows)
  then have "\<exists>body. render_rows widths (shared_flags m flags) (Suc r) rows = Inr body"
    by (intro Cons.IH) simp_all
  moreover from Cons.prems
  have "\<exists>cells. render_cells widths (shared_flags m flags) r 0 row = Inr cells"
    by (intro render_cells_returns) simp_all
  ultimately show ?case by auto
qed

lemma tabulate_returns:
  assumes "well_formed_table rows"
  shows "\<exists>out. tabulate rows markdown = Inr out"
proof -
  from assms obtain header rest where r1: "rows = header # rest" and r2: "rest \<noteq> []"
    and r3: "list_all (\<lambda>row. length row \<le> length header) rest"
    and dec: "list_all (list_all (\<lambda>cell. isdigit cell \<longrightarrow> count_cell cell)) rows"
    by (cases rows) (auto simp: well_formed_table_def)
  from r2 obtain row0 others where r4: "rest = row0 # others" by (cases rest) auto
  from r1 r4 have rows: "rows = header # row0 # others" by simp
  from r3 r4 have len: "list_all (\<lambda>row. length row \<le> length header) (row0 # others)" by simp
  let ?n = "length header"
  let ?m = "Suc (Suc (length others))"
  let ?flags = "fold (\<lambda>row fs. mark_cells fs 0 row) rows (replicate ?n False)"
  let ?widths = "fold (\<lambda>row ws. widen ws 0 row) rows (replicate ?n 0)"
  have "\<exists>res. scan_rows 0 rows (replicate ?n 0) (shared_flags ?m (replicate ?n False)) = Inr res"
    using len dec rows by (intro scan_rows_returns) simp_all
  then obtain rows' widths st' where
    scan: "scan_rows 0 rows (replicate ?n 0) (shared_flags ?m (replicate ?n False))
             = Inr (rows', widths, st')"
    by (metis prod_cases3)
  from scan_rows_shared [OF scan] have rows': "rows' = map (map displayed) rows"
    and widths: "widths = ?widths" and st': "st' = shared_flags ?m ?flags"
    by simp_all
  have lw: "length widths = ?n" and lf: "length ?flags = ?n" by (simp_all add: widths)
  obtain h where h: "render_headers widths 0 (map displayed header) = Inr h"
    using render_headers_returns [of 0 "map displayed header" widths] lw by auto
  from len have l0: "length row0 \<le> ?n" by simp
  obtain sep where sep: "render_separator widths (shared_flags ?m ?flags) markdown
                           [0..<length (map displayed row0)] = Inr sep"
    using render_separator_returns [of "[0..<length (map displayed row0)]" widths ?flags ?m markdown]
      lw lf l0 by auto
  obtain body where body: "render_rows widths (shared_flags ?m ?flags) 0
                             (map (map displayed) (row0 # others)) = Inr body"
    using render_rows_returns [of widths ?flags "map (map displayed) (row0 # others)" 0 ?m] lw lf len
    by (auto simp: list_all_iff)
  from scan rows' h sep body rows show ?thesis
    by (simp add: tabulate_def Let_def new_right_align_shared st' del: scan_rows.simps)
qed

text \<open>
  C10: right alignment is a property of the column.  For every table with a header and a
  data row, no row longer than the header and decimal digits in its digit-only cells,
  \<^verbatim>\<open>tabulate\<close> returns a text that ends with the data rows, one line each, in which
  each cell is padded on the left, that is right-aligned, exactly when some cell of its
  column, in any row or in the header, is digit-only or ends in a percent sign, whether or
  not the cell itself is numeric.
\<close>

theorem tabulate_right_align_per_column:
  assumes "well_formed_table rows"
  shows "\<exists>top. tabulate rows markdown =
           Inr (top @ concat (map (\<lambda>row. concat (map (\<lambda>(i, item).
                  cell_text (raw_width rows i) (column_marked rows i) item)
                    (enumerate 0 (map displayed row))) @ ''|\<newline>'') (tl rows)))"
proof -
  from tabulate_returns [OF assms] obtain out where out: "tabulate rows markdown = Inr out"
    by blast
  from tabulate_body [OF out] out show ?thesis by auto
qed

theorem tabulate_right_align_per_column_witness:
  "well_formed_table [[''name'', ''pct''], [''a'', ''x''], [''b'', ''5%'']]
   \<and> \<not> marked ''x''
   \<and> column_marked [[''name'', ''pct''], [''a'', ''x''], [''b'', ''5%'']] 1
   \<and> tabulate [[''name'', ''pct''], [''a'', ''x''], [''b'', ''5%'']] True =
     Inr (''| name | pct |\<newline>''
        @ ''| ---- | --: |\<newline>''
        @ ''| a    |   x |\<newline>''
        @ ''| b    |  5% |\<newline>'')
   \<and> (\<exists>top. tabulate [[''name'', ''pct''], [''a'', ''x''], [''b'', ''5%'']] True =
         Inr (top @ ''| a    |   x |\<newline>'' @ ''| b    |  5% |\<newline>''))"
proof -
  have wf: "well_formed_table [[''name'', ''pct''], [''a'', ''x''], [''b'', ''5%'']]"
    by (simp add: well_formed_table_def char_eval)
  have run: "tabulate [[''name'', ''pct''], [''a'', ''x''], [''b'', ''5%'']] True =
     Inr (''| name | pct |\<newline>''
        @ ''| ---- | --: |\<newline>''
        @ ''| a    |   x |\<newline>''
        @ ''| b    |  5% |\<newline>'')"
    by (simp add: char_eval int_eval table_eval)
  have m: "\<not> marked ''x''" "\<not> marked ''a''" "\<not> marked ''b''" "marked ''5%''"
    "\<not> marked ''name''" "\<not> marked ''pct''"
    by (simp_all add: marked_def char_eval)
  have c: "column_marked [[''name'', ''pct''], [''a'', ''x''], [''b'', ''5%'']] (Suc 0)"
    "\<not> column_marked [[''name'', ''pct''], [''a'', ''x''], [''b'', ''5%'']] 0"
    by (simp_all add: column_marked_def m)
  have w: "raw_width [[''name'', ''pct''], [''a'', ''x''], [''b'', ''5%'']] 0 = 4"
    "raw_width [[''name'', ''pct''], [''a'', ''x''], [''b'', ''5%'']] (Suc 0) = 3"
    by (simp_all add: raw_width_def)
  have d: "displayed ''x'' = ''x''" "displayed ''a'' = ''a''" "displayed ''b'' = ''b''"
    "displayed ''5%'' = ''5%''"
    by (simp_all add: displayed_def char_eval)
  have body: "concat (map (\<lambda>row. concat (map (\<lambda>(i, item).
                  cell_text (raw_width [[''name'', ''pct''], [''a'', ''x''], [''b'', ''5%'']] i)
                    (column_marked [[''name'', ''pct''], [''a'', ''x''], [''b'', ''5%'']] i) item)
                    (enumerate 0 (map displayed row))) @ ''|\<newline>'')
                (tl [[''name'', ''pct''], [''a'', ''x''], [''b'', ''5%'']]))
              = ''| a    |   x |\<newline>'' @ ''| b    |  5% |\<newline>''"
    by (simp add: c w d cell_text_def spaces_def enumerate_eq_zip replicate_numeral)
  from tabulate_right_align_per_column [OF wf, of True]
  have "\<exists>top. tabulate [[''name'', ''pct''], [''a'', ''x''], [''b'', ''5%'']] True =
         Inr (top @ ''| a    |   x |\<newline>'' @ ''| b    |  5% |\<newline>'')"
    unfolding body .
  with wf run m(1) c(1) show ?thesis by simp
qed

end
